theory Spec2Isabelle
  imports Main
begin

section \<open>Data model of \<open>src/index.ts\<close>\<close>

text \<open>
  Scene objects live on the JavaScript heap and are shared by reference. A mesh is named
  by its reference (\<open>mesh_ref\<close>), and the heap is the field \<open>meshes\<close> of the state.
  A parent is a scene node (a transform node of the loaded file, or the grip mesh of an
  input source); only its identity and its name are read by the program.
\<close>

type_synonym mesh_ref = nat

record node =
  nodeId :: nat
  nodeName :: string

text \<open>
  \<open>PhysicsImpostor\<close>: the options given to the constructor (only \<open>mass\<close> for the loaded
  meshes) and whether the body is asleep, which \<open>sleep()\<close> and \<open>wakeUp()\<close> set.
\<close>

record impostor =
  mass :: nat
  asleep :: bool

text \<open>\<open>AbstractMesh\<close>: the fields the program reads or writes.\<close>

record mesh =
  name :: string
  parent :: "node option"
  physicsImpostor :: "impostor option"

text \<open>
  \<open>WebXRControllerComponent\<close>. \<open>changes_pressed\<close> and \<open>changes_axes\<close> say whether
  \<open>component.changes.pressed\<close> and \<open>component.changes.axes\<close> are defined (an object
  is truthy). The axis values are only concatenated into a log message, so they are kept
  as their renderings.
\<close>

record component =
  pressed :: bool
  changes_pressed :: bool
  changes_axes :: bool
  axes_x :: string
  axes_y :: string

text \<open>
  \<open>WebXRInputSource\<close>: \<open>grip\<close> is optional, \<open>motionController\<close> is optional, and a
  motion controller maps a component id to a component or to \<open>undefined\<close>.
\<close>

record input_source =
  uniqueId :: string
  grip :: "node option"
  motionController :: "(string \<Rightarrow> component option) option"

text \<open>
  The calls the program makes into the engine, in order: \<open>Logger.Log\<close>, the impostor's
  \<open>sleep()\<close> and \<open>wakeUp()\<close>, \<open>setParent\<close>, \<open>new PhysicsImpostor\<close> with its mass,
  \<open>debugLayer.show()\<close> and \<open>scene.render()\<close>.
\<close>

datatype call =
  Log string
  | Sleep mesh_ref
  | WakeUp mesh_ref
  | SetParent mesh_ref "node option"
  | NewImpostor mesh_ref nat
  | ShowDebugLayer
  | SceneRender

text \<open>Dereferencing \<open>null\<close> or \<open>undefined\<close> raises a \<open>TypeError\<close>.\<close>

datatype error = TypeError

text \<open>The fields of class \<open>Game\<close> that the controller code uses, the heap and the call trace.\<close>

record game =
  leftController :: "input_source option"
  rightController :: "input_source option"
  rightGrabbedObject :: "mesh_ref option"
  grabbableObjects :: "mesh_ref list"
  meshes :: "mesh_ref \<Rightarrow> mesh"
  calls :: "call list"

text \<open>
  \<open>intersectsMesh\<close> is the engine's geometric test between a grip and a mesh. It depends
  on poses the program does not compute, so every frame takes it as a parameter.
\<close>

type_synonym intersects = "node \<Rightarrow> mesh_ref \<Rightarrow> bool"

section \<open>Engine operations\<close>

definition Logger_Log :: "string \<Rightarrow> game \<Rightarrow> game" where
  "Logger_Log s g = g\<lparr>calls := calls g @ [Log s]\<rparr>"

text \<open>\<open>mesh.setParent(p)\<close>.\<close>

definition setParent :: "mesh_ref \<Rightarrow> node option \<Rightarrow> game \<Rightarrow> game" where
  "setParent m p g =
     g\<lparr>meshes := (meshes g)(m := (meshes g m)\<lparr>parent := p\<rparr>),
       calls := calls g @ [SetParent m p]\<rparr>"

text \<open>\<open>mesh.physicsImpostor?.sleep()\<close>: nothing is called when there is no impostor.\<close>

definition sleep :: "mesh_ref \<Rightarrow> game \<Rightarrow> game" where
  "sleep m g =
     (case physicsImpostor (meshes g m) of
        None \<Rightarrow> g
      | Some im \<Rightarrow>
          g\<lparr>meshes := (meshes g)(m := (meshes g m)\<lparr>physicsImpostor := Some (im\<lparr>asleep := True\<rparr>)\<rparr>),
            calls := calls g @ [Sleep m]\<rparr>)"

text \<open>\<open>mesh.physicsImpostor?.wakeUp()\<close>.\<close>

definition wakeUp :: "mesh_ref \<Rightarrow> game \<Rightarrow> game" where
  "wakeUp m g =
     (case physicsImpostor (meshes g m) of
        None \<Rightarrow> g
      | Some im \<Rightarrow>
          g\<lparr>meshes := (meshes g)(m := (meshes g m)\<lparr>physicsImpostor := Some (im\<lparr>asleep := False\<rparr>)\<rparr>),
            calls := calls g @ [WakeUp m]\<rparr>)"

text \<open>
  \<open>mesh.physicsImpostor = new PhysicsImpostor(mesh, BoxImpostor, {mass: k}, scene)\<close>:
  a new body is awake.
\<close>

definition newImpostor :: "mesh_ref \<Rightarrow> nat \<Rightarrow> game \<Rightarrow> game" where
  "newImpostor m k g =
     g\<lparr>meshes := (meshes g)(m := (meshes g m)\<lparr>physicsImpostor := Some \<lparr>mass = k, asleep = False\<rparr>\<rparr>),
       calls := calls g @ [NewImpostor m k]\<rparr>"

text \<open>\<open>source?.motionController?.getComponent(id)\<close>.\<close>

definition getComponent :: "input_source option \<Rightarrow> string \<Rightarrow> component option" where
  "getComponent source cid =
     (case source of
        None \<Rightarrow> None
      | Some s \<Rightarrow> (case motionController s of None \<Rightarrow> None | Some mc \<Rightarrow> mc cid))"

section \<open>The constructor and scene loading\<close>

text \<open>The constructor of \<open>Game\<close>; \<open>ms\<close> is the heap of scene objects.\<close>

definition constructor :: "(mesh_ref \<Rightarrow> mesh) \<Rightarrow> game" where
  "constructor ms =
     \<lparr>leftController = None, rightController = None, rightGrabbedObject = None,
      grabbableObjects = [], meshes = ms, calls = []\<rparr>"

text \<open>\<open>s.endsWith(t)\<close>.\<close>

definition endsWith :: "string \<Rightarrow> string \<Rightarrow> bool" where
  "endsWith s t = (length t \<le> length s \<and> drop (length s - length t) s = t)"

text \<open>The observer of \<open>onControllerAddedObservable\<close>.\<close>

definition onControllerAdded :: "input_source \<Rightarrow> game \<Rightarrow> game" where
  "onControllerAdded inputSource g =
     (if endsWith (uniqueId inputSource) ''left''
      then g\<lparr>leftController := Some inputSource\<rparr>
      else g\<lparr>rightController := Some inputSource\<rparr>)"

text \<open>
  \<open>worldTask.onSuccess\<close>: \<open>loadedMeshes[0].name = "world"\<close>. Its position, rotation and
  scaling are set too; transforms are not part of the state. With no loaded mesh,
  \<open>loadedMeshes[0]\<close> is \<open>undefined\<close> and the assignment raises.
\<close>

definition onSuccess :: "mesh_ref list \<Rightarrow> game \<Rightarrow> error + game" where
  "onSuccess loadedMeshes g =
     (case loadedMeshes of
        [] \<Rightarrow> Inl TypeError
      | m0 # ms \<Rightarrow> Inr (g\<lparr>meshes := (meshes g)(m0 := (meshes g m0)\<lparr>name := ''world''\<rparr>)\<rparr>))"

text \<open>\<open>mesh.parent?.name == "Props"\<close>.\<close>

definition parentIsProps :: "mesh \<Rightarrow> bool" where
  "parentIsProps me = (case parent me of None \<Rightarrow> False | Some p \<Rightarrow> nodeName p = ''Props'')"

text \<open>The body of the \<open>forEach\<close> in \<open>assetsManager.onFinish\<close>, for one loaded mesh.\<close>

definition onFinishMesh :: "mesh_ref \<Rightarrow> game \<Rightarrow> game" where
  "onFinishMesh m g =
     (if name (meshes g m) = ''rpgpp_lt_table_01''
      then newImpostor m 0 (setParent m None g)
      else if parentIsProps (meshes g m)
      then sleep m (newImpostor m 1 (setParent m None
             (g\<lparr>grabbableObjects := grabbableObjects g @ [m]\<rparr>)))
      else g)"

text \<open>\<open>assetsManager.onFinish\<close> over \<open>worldTask.loadedMeshes\<close>, then the debug layer.\<close>

definition onFinish :: "mesh_ref list \<Rightarrow> game \<Rightarrow> game" where
  "onFinish loadedMeshes g =
     (let g' = fold onFinishMesh loadedMeshes g in g'\<lparr>calls := calls g' @ [ShowDebugLayer]\<rparr>)"

section \<open>The controller input handlers\<close>

text \<open>
  Eight handlers have the same body up to the label of their messages:
  \<open>if(component?.changes.pressed) { if(component?.pressed) Log(label pressed) else Log(label released) }\<close>.
\<close>

definition onButton :: "string \<Rightarrow> component option \<Rightarrow> game \<Rightarrow> game" where
  "onButton label component g =
     (case component of
        None \<Rightarrow> g
      | Some c \<Rightarrow>
          if changes_pressed c
          then (if pressed c then Logger_Log (label @ '' pressed'') g
                else Logger_Log (label @ '' released'') g)
          else g)"

text \<open>The second statement of the thumbstick handlers: \<open>if(component?.changes.axes) Log(...)\<close>.\<close>

definition onAxes :: "string \<Rightarrow> component option \<Rightarrow> game \<Rightarrow> game" where
  "onAxes label component g =
     (case component of
        None \<Rightarrow> g
      | Some c \<Rightarrow>
          if changes_axes c
          then Logger_Log (label @ '' axes: ('' @ axes_x c @ '','' @ axes_y c @ '')'') g
          else g)"

definition onLeftTrigger :: "component option \<Rightarrow> game \<Rightarrow> game" where
  "onLeftTrigger component g = onButton ''left trigger'' component g"

definition onLeftSqueeze :: "component option \<Rightarrow> game \<Rightarrow> game" where
  "onLeftSqueeze component g =
     (case component of
        None \<Rightarrow> g
      | Some c \<Rightarrow>
          if changes_pressed c
          then (if pressed c then Logger_Log ''left squeeze pressed'' g
                else Logger_Log ''left squeeze released'' g)
          else g)"

definition onLeftX :: "component option \<Rightarrow> game \<Rightarrow> game" where
  "onLeftX component g = onButton ''left X'' component g"

definition onLeftY :: "component option \<Rightarrow> game \<Rightarrow> game" where
  "onLeftY component g = onButton ''left Y'' component g"

definition onLeftThumbstick :: "component option \<Rightarrow> game \<Rightarrow> game" where
  "onLeftThumbstick component g = onAxes ''left thumbstick'' component (onButton ''left thumbstick'' component g)"

definition onRightTrigger :: "component option \<Rightarrow> game \<Rightarrow> game" where
  "onRightTrigger component g = onButton ''right trigger'' component g"

definition onRightA :: "component option \<Rightarrow> game \<Rightarrow> game" where
  "onRightA component g = onButton ''right A'' component g"

definition onRightB :: "component option \<Rightarrow> game \<Rightarrow> game" where
  "onRightB component g = onButton ''right B'' component g"

definition onRightThumbstick :: "component option \<Rightarrow> game \<Rightarrow> game" where
  "onRightThumbstick component g = onAxes ''right thumbstick'' component (onButton ''right thumbstick'' component g)"

text \<open>
  The three statements of the body of the scan loop of \<open>onRightSqueeze\<close>, for the
  registry entry \<open>m\<close> and the grip \<open>gr\<close>.
\<close>

definition attach :: "node \<Rightarrow> mesh_ref \<Rightarrow> game \<Rightarrow> game" where
  "attach gr m g = setParent m (Some gr) (sleep m (g\<lparr>rightGrabbedObject := Some m\<rparr>))"

text \<open>
  The scan loop
  \<open>for(var i = 0; i < this.grabbableObjects.length && !this.rightGrabbedObject; i++)\<close>,
  from index \<open>i\<close>. \<open>this.rightController!.grip!\<close> is a compile-time assertion only:
  at run time a missing controller or grip makes the call of \<open>intersectsMesh\<close> raise.
\<close>

function grabLoop :: "intersects \<Rightarrow> nat \<Rightarrow> game \<Rightarrow> error + game" where
  "grabLoop intersectsMesh i g =
     (if i < length (grabbableObjects g) \<and> rightGrabbedObject g = None
      then (case rightController g of
              None \<Rightarrow> Inl TypeError
            | Some rc \<Rightarrow>
                (case grip rc of
                   None \<Rightarrow> Inl TypeError
                 | Some gr \<Rightarrow>
                     if intersectsMesh gr (grabbableObjects g ! i)
                     then grabLoop intersectsMesh (Suc i) (attach gr (grabbableObjects g ! i) g)
                     else grabLoop intersectsMesh (Suc i) g))
      else Inr g)"
  by pat_completeness auto

termination grabLoop
  by (relation "measure (\<lambda>(f, i, g). length (grabbableObjects g) - i)")
    (auto simp add: attach_def setParent_def sleep_def split: option.splits)

declare grabLoop.simps [simp del]

text \<open>The release branch of \<open>onRightSqueeze\<close>.\<close>

definition release :: "game \<Rightarrow> game" where
  "release g =
     (case rightGrabbedObject g of
        None \<Rightarrow> g
      | Some m \<Rightarrow> (wakeUp m (setParent m None g))\<lparr>rightGrabbedObject := None\<rparr>)"

definition onRightSqueeze :: "intersects \<Rightarrow> component option \<Rightarrow> game \<Rightarrow> error + game" where
  "onRightSqueeze intersectsMesh component g =
     (case component of
        None \<Rightarrow> Inr g
      | Some c \<Rightarrow>
          if changes_pressed c
          then (if pressed c
                then grabLoop intersectsMesh 0 (Logger_Log ''right squeeze pressed'' g)
                else Inr (release (Logger_Log ''right squeeze released'' g)))
          else Inr g)"

text \<open>
  \<open>processControllerInput\<close>, which \<open>update\<close> runs once per frame: the ten handlers in
  order. An exception of the right squeeze handler ends the frame.
\<close>

definition processControllerInput :: "intersects \<Rightarrow> game \<Rightarrow> error + game" where
  "processControllerInput intersectsMesh g =
     (let g1 = onLeftTrigger (getComponent (leftController g) ''xr-standard-trigger'') g;
          g2 = onLeftSqueeze (getComponent (leftController g1) ''xr-standard-squeeze'') g1;
          g3 = onLeftThumbstick (getComponent (leftController g2) ''xr-standard-thumbstick'') g2;
          g4 = onLeftX (getComponent (leftController g3) ''x-button'') g3;
          g5 = onLeftY (getComponent (leftController g4) ''y-button'') g4;
          g6 = onRightTrigger (getComponent (rightController g5) ''xr-standard-trigger'') g5
      in case onRightSqueeze intersectsMesh
                (getComponent (rightController g6) ''xr-standard-squeeze'') g6 of
           Inl e \<Rightarrow> Inl e
         | Inr g7 \<Rightarrow>
             (let g8 = onRightThumbstick
                         (getComponent (rightController g7) ''xr-standard-thumbstick'') g7;
                  g9 = onRightA (getComponent (rightController g8) ''a-button'') g8
              in Inr (onRightB (getComponent (rightController g9) ''b-button'') g9)))"

definition update :: "intersects \<Rightarrow> game \<Rightarrow> error + game" where
  "update intersectsMesh g = processControllerInput intersectsMesh g"

section \<open>The render loop\<close>

text \<open>
  \<open>scene.render()\<close> is the engine's. Physics is enabled in \<open>createScene\<close>, so rendering
  runs a physics step, and a step can wake sleeping bodies (a sleeping body that an awake
  moving body touches is woken). Which bodies a step wakes depends on poses and
  velocities the program does not compute: it is the parameter \<open>woken\<close>. A step does not
  put bodies to sleep and does not change parents.
\<close>

definition render :: "(mesh_ref \<Rightarrow> bool) \<Rightarrow> game \<Rightarrow> game" where
  "render woken g =
     g\<lparr>meshes := (\<lambda>m. if woken m
                       then (meshes g m)\<lparr>physicsImpostor :=
                              map_option (\<lambda>im. im\<lparr>asleep := False\<rparr>) (physicsImpostor (meshes g m))\<rparr>
                       else meshes g m),
       calls := calls g @ [SceneRender]\<rparr>"

text \<open>The callback of \<open>runRenderLoop\<close> in \<open>start\<close>: \<open>this.update(); this.scene.render();\<close>.\<close>

definition renderLoop :: "intersects \<Rightarrow> (mesh_ref \<Rightarrow> bool) \<Rightarrow> game \<Rightarrow> error + game" where
  "renderLoop intersectsMesh woken g =
     (case update intersectsMesh g of Inl e \<Rightarrow> Inl e | Inr g' \<Rightarrow> Inr (render woken g'))"

section \<open>Vocabulary of the properties\<close>

text \<open>
  The engine calls of a frame are the calls it adds to the trace. Its side effects are
  those of them that are not log lines: \<open>sleep\<close>, \<open>wakeUp\<close>, \<open>setParent\<close>.
\<close>

fun isLog :: "call \<Rightarrow> bool" where
  "isLog (Log s) = True"
| "isLog _ = False"

definition newCalls :: "game \<Rightarrow> game \<Rightarrow> call list" where
  "newCalls g g' = drop (length (calls g)) (calls g')"

definition sideEffects :: "game \<Rightarrow> game \<Rightarrow> call list" where
  "sideEffects g g' = filter (\<lambda>c. \<not> isLog c) (newCalls g g')"

text \<open>A state after some more lines have been logged and nothing else has happened.\<close>

definition logged :: "string list \<Rightarrow> game \<Rightarrow> game" where
  "logged ls g = g\<lparr>calls := calls g @ map Log ls\<rparr>"


section \<open>The environment between frames\<close>

text \<open>
  Before each frame the engine refreshes the motion controllers of the input sources
  (which components exist, whether they are pressed, what changed since the last frame).
  The input sources themselves and their grips stay.
\<close>

definition pollInput ::
  "(string \<Rightarrow> component option) option \<Rightarrow> (string \<Rightarrow> component option) option \<Rightarrow> game \<Rightarrow> game" where
  "pollInput mcL mcR g =
     g\<lparr>leftController := map_option (\<lambda>s. s\<lparr>motionController := mcL\<rparr>) (leftController g),
       rightController := map_option (\<lambda>s. s\<lparr>motionController := mcR\<rparr>) (rightController g)\<rparr>"

text \<open>
  The states the program reaches. The flag says whether the assets have finished
  loading, which happens once: \<open>worldTask.onSuccess\<close> runs, then
  \<open>assetsManager.onFinish\<close>. The render loop starts as soon as \<open>createScene\<close> returns, so
  the loop runs before and after the assets are loaded, and controllers are added at any
  time. The two halves of the loop's callback, \<open>update\<close> and \<open>scene.render\<close>, are
  separate steps, so that the states between them are reachable too. A frame that raises
  ends the loop.
\<close>

inductive reachable :: "bool \<Rightarrow> game \<Rightarrow> bool" where
  constructed: "reachable False (constructor ms)"
| controllerAdded: "reachable b g \<Longrightarrow> reachable b (onControllerAdded inputSource g)"
| inputPolled: "reachable b g \<Longrightarrow> reachable b (pollInput mcL mcR g)"
| assetsFinished:
    "reachable False g \<Longrightarrow> onSuccess loadedMeshes g = Inr g1
       \<Longrightarrow> reachable True (onFinish loadedMeshes g1)"
| frame: "reachable b g \<Longrightarrow> processControllerInput isect g = Inr g' \<Longrightarrow> reachable b g'"
| rendered: "reachable b g \<Longrightarrow> reachable b (render woken g)"

text \<open>\<open>isGrabOf m c\<close>: the call \<open>c\<close> attaches mesh \<open>m\<close> to a grip.\<close>

fun isGrabOf :: "mesh_ref \<Rightarrow> call \<Rightarrow> bool" where
  "isGrabOf m (SetParent m' (Some gr)) = (m' = m)"
| "isGrabOf m c = False"

text \<open>
  What the reachable states have in common: nothing is registered before the assets are
  loaded; every registered object has an impostor; a held object is registered and was
  attached to a grip.
\<close>

definition grabInvariant :: "bool \<Rightarrow> game \<Rightarrow> bool" where
  "grabInvariant b g \<longleftrightarrow>
     (\<not> b \<longrightarrow> grabbableObjects g = [])
     \<and> (\<forall>m\<in>set (grabbableObjects g). physicsImpostor (meshes g m) \<noteq> None)
     \<and> (\<forall>obj. rightGrabbedObject g = Some obj \<longrightarrow>
            obj \<in> set (grabbableObjects g) \<and> (\<exists>c\<in>set (calls g). isGrabOf obj c))"

text \<open>
  \<open>heldOnGrip g obj\<close>: the right hand holds \<open>obj\<close>, the parent of \<open>obj\<close> is the grip of
  the right controller, and the impostor of \<open>obj\<close> is asleep.
\<close>

definition heldOnGrip :: "game \<Rightarrow> mesh_ref \<Rightarrow> bool" where
  "heldOnGrip g obj \<longleftrightarrow>
     rightGrabbedObject g = Some obj
     \<and> (case rightController g of
          None \<Rightarrow> False
        | Some rc \<Rightarrow> (case grip rc of None \<Rightarrow> False | Some gr \<Rightarrow> parent (meshes g obj) = Some gr))
     \<and> (case physicsImpostor (meshes g obj) of None \<Rightarrow> False | Some im \<Rightarrow> asleep im)"

section \<open>A small scene\<close>

text \<open>
  Concrete inputs on which the theorems below are instantiated: a right controller with
  a grip and a squeeze component, and two registered props with sleeping impostors.
\<close>

definition propsGroup :: node where
  "propsGroup = \<lparr>nodeId = 10, nodeName = ''Props''\<rparr>"

definition rightGrip :: node where
  "rightGrip = \<lparr>nodeId = 20, nodeName = ''right grip''\<rparr>"

definition leftGrip :: node where
  "leftGrip = \<lparr>nodeId = 21, nodeName = ''left grip''\<rparr>"

definition squeeze :: "bool \<Rightarrow> bool \<Rightarrow> component" where
  "squeeze isPressed hasChanged =
     \<lparr>pressed = isPressed, changes_pressed = hasChanged, changes_axes = False,
      axes_x = ''0'', axes_y = ''0''\<rparr>"

definition hand :: "string \<Rightarrow> node option \<Rightarrow> component \<Rightarrow> input_source" where
  "hand uid gr c =
     \<lparr>uniqueId = uid, grip = gr,
      motionController = Some (\<lambda>cid. if cid = ''xr-standard-squeeze'' then Some c else None)\<rparr>"

definition sleepingProp :: mesh where
  "sleepingProp = \<lparr>name = ''prop'', parent = None, physicsImpostor = Some \<lparr>mass = 1, asleep = True\<rparr>\<rparr>"

definition idleState :: "component \<Rightarrow> game" where
  "idleState c =
     \<lparr>leftController = None, rightController = Some (hand ''controller-right'' (Some rightGrip) c),
      rightGrabbedObject = None, grabbableObjects = [1, 2], meshes = (\<lambda>m. sleepingProp),
      calls = []\<rparr>"

definition holdingState :: "component \<Rightarrow> game" where
  "holdingState c =
     \<lparr>leftController = None, rightController = Some (hand ''controller-right'' (Some rightGrip) c),
      rightGrabbedObject = Some 1, grabbableObjects = [1, 2],
      meshes = (\<lambda>m. sleepingProp)(1 := sleepingProp\<lparr>parent := Some rightGrip\<rparr>),
      calls = []\<rparr>"


definition bareProp :: mesh where
  "bareProp = \<lparr>name = ''prop'', parent = None, physicsImpostor = None\<rparr>"

definition bareIdleState :: "component \<Rightarrow> game" where
  "bareIdleState c = (idleState c)\<lparr>meshes := (\<lambda>m. bareProp)\<rparr>"

definition bareHoldingState :: "component \<Rightarrow> game" where
  "bareHoldingState c =
     (holdingState c)\<lparr>meshes := (\<lambda>m. bareProp)(1 := bareProp\<lparr>parent := Some rightGrip\<rparr>)\<rparr>"

definition noGripState :: "component \<Rightarrow> game" where
  "noGripState c = (idleState c)\<lparr>rightController := Some (hand ''controller-right'' None c)\<rparr>"

definition leftPressState :: game where
  "leftPressState =
     \<lparr>leftController = Some (hand ''controller-left'' (Some leftGrip) (squeeze True True)),
      rightController = None, rightGrabbedObject = None, grabbableObjects = [1, 2],
      meshes = (\<lambda>m. sleepingProp), calls = []\<rparr>"

text \<open>
  A run of the program. The loaded meshes are the root (mesh \<open>0\<close>, which \<open>onSuccess\<close>
  renames), the table (mesh \<open>1\<close>) and two props in the group \<open>Props\<close> (meshes \<open>2\<close> and
  \<open>3\<close>). The right controller connects, the assets finish loading, and then the render
  loop runs, each state below being the one after \<open>update\<close> and \<open>scene.render\<close>: the
  squeeze is pressed over both props (prop \<open>2\<close> is grabbed), released (prop \<open>2\<close> falls,
  and the physics step wakes prop \<open>3\<close>, which it hits), pressed again over prop \<open>3\<close>
  alone (prop \<open>3\<close> is grabbed, and the physics step wakes it again).
\<close>

definition environmentGroup :: node where
  "environmentGroup = \<lparr>nodeId = 11, nodeName = ''Environment''\<rparr>"

definition exampleWorld :: "mesh_ref \<Rightarrow> mesh" where
  "exampleWorld m =
     (if m = 0 then \<lparr>name = ''__root__'', parent = None, physicsImpostor = None\<rparr>
      else if m = 1
      then \<lparr>name = ''rpgpp_lt_table_01'', parent = Some environmentGroup, physicsImpostor = None\<rparr>
      else \<lparr>name = ''prop'', parent = Some propsGroup, physicsImpostor = None\<rparr>)"

definition squeezeInput :: "component \<Rightarrow> (string \<Rightarrow> component option) option" where
  "squeezeInput c = Some (\<lambda>cid. if cid = ''xr-standard-squeeze'' then Some c else None)"

definition connectedExample :: game where
  "connectedExample =
     onControllerAdded (hand ''controller-right'' (Some rightGrip) (squeeze False False))
       (constructor exampleWorld)"

definition renamedExample :: game where
  "renamedExample =
     connectedExample\<lparr>meshes := exampleWorld(0 := (exampleWorld 0)\<lparr>name := ''world''\<rparr>)\<rparr>"

definition loadedExample :: game where
  "loadedExample = onFinish [0, 1, 2, 3] renamedExample"

definition pressedExample :: game where
  "pressedExample = pollInput None (squeezeInput (squeeze True True)) loadedExample"

definition grabbedUpdate :: game where
  "grabbedUpdate = attach rightGrip 2 (Logger_Log ''right squeeze pressed'' pressedExample)"

definition grabbedExample :: game where
  "grabbedExample = render (\<lambda>m. False) grabbedUpdate"

definition releasingExample :: game where
  "releasingExample = pollInput None (squeezeInput (squeeze False True)) grabbedExample"

definition releasedUpdate :: game where
  "releasedUpdate = release (Logger_Log ''right squeeze released'' releasingExample)"

definition wokenExample :: game where
  "wokenExample = render (\<lambda>m. m = 3) releasedUpdate"

definition pressedAgainExample :: game where
  "pressedAgainExample = pollInput None (squeezeInput (squeeze True True)) wokenExample"

definition regrabbedUpdate :: game where
  "regrabbedUpdate = attach rightGrip 3 (Logger_Log ''right squeeze pressed'' pressedAgainExample)"

definition heldAwakeExample :: game where
  "heldAwakeExample = render (\<lambda>m. m = 3) regrabbedUpdate"

text \<open>
  Another continuation of the run: while prop \<open>2\<close> is held, an input source that is not
  a left one connects and takes the place of the right controller.
\<close>

definition otherGrip :: node where
  "otherGrip = \<lparr>nodeId = 22, nodeName = ''other grip''\<rparr>"

definition replacedExample :: game where
  "replacedExample =
     onControllerAdded (hand ''controller-right-2'' (Some otherGrip) (squeeze True False))
       grabbedExample"

section \<open>Handlers that only log\<close>

lemma grabbableObjects_attach [simp]: "grabbableObjects (attach gr m g) = grabbableObjects g"
  by (simp add: attach_def setParent_def sleep_def split: option.splits)

lemma logged_fields [simp]:
  "leftController (logged ls g) = leftController g"
  "rightController (logged ls g) = rightController g"
  "rightGrabbedObject (logged ls g) = rightGrabbedObject g"
  "grabbableObjects (logged ls g) = grabbableObjects g"
  "meshes (logged ls g) = meshes g"
  "calls (logged ls g) = calls g @ map Log ls"
  by (simp_all add: logged_def)

lemma logged_logged: "logged ls (logged ks g) = logged (ks @ ls) g"
  by (simp add: logged_def)

lemma logged_Nil: "logged [] g = g"
  by (simp add: logged_def)

lemma Logger_Log_logged: "Logger_Log s g = logged [s] g"
  by (simp add: Logger_Log_def logged_def)

lemma onButton_logged: "\<exists>ls. onButton l c g = logged ls g"
proof (cases c)
  case None
  then have "onButton l c g = logged [] g" by (simp add: onButton_def logged_Nil)
  then show ?thesis ..
next
  case (Some x)
  show ?thesis
  proof (cases "changes_pressed x")
    case True
    then have "onButton l c g = logged [if pressed x then l @ '' pressed'' else l @ '' released''] g"
      using Some by (simp add: onButton_def Logger_Log_logged)
    then show ?thesis ..
  next
    case False
    then have "onButton l c g = logged [] g" using Some by (simp add: onButton_def logged_Nil)
    then show ?thesis ..
  qed
qed

lemma onAxes_logged: "\<exists>ls. onAxes l c g = logged ls g"
proof (cases c)
  case None
  then have "onAxes l c g = logged [] g" by (simp add: onAxes_def logged_Nil)
  then show ?thesis ..
next
  case (Some x)
  show ?thesis
  proof (cases "changes_axes x")
    case True
    then have "onAxes l c g = logged [l @ '' axes: ('' @ axes_x x @ '','' @ axes_y x @ '')''] g"
      using Some by (simp add: onAxes_def Logger_Log_logged)
    then show ?thesis ..
  next
    case False
    then have "onAxes l c g = logged [] g" using Some by (simp add: onAxes_def logged_Nil)
    then show ?thesis ..
  qed
qed

lemma onLeftSqueeze_logged: "\<exists>ls. onLeftSqueeze c g = logged ls g"
proof (cases c)
  case None
  then have "onLeftSqueeze c g = logged [] g" by (simp add: onLeftSqueeze_def logged_Nil)
  then show ?thesis ..
next
  case (Some x)
  show ?thesis
  proof (cases "changes_pressed x")
    case True
    then have "onLeftSqueeze c g = logged [if pressed x then ''left squeeze pressed'' else ''left squeeze released''] g"
      using Some by (simp add: onLeftSqueeze_def Logger_Log_logged)
    then show ?thesis ..
  next
    case False
    then have "onLeftSqueeze c g = logged [] g" using Some by (simp add: onLeftSqueeze_def logged_Nil)
    then show ?thesis ..
  qed
qed

lemma logged_then:
  assumes "\<exists>ks. g1 = logged ks g" and "\<exists>ls. g2 = logged ls g1"
  shows "\<exists>ms. g2 = logged ms g"
proof -
  from assms obtain ks ls where "g1 = logged ks g" "g2 = logged ls g1" by blast
  then have "g2 = logged (ks @ ls) g" by (simp add: logged_logged)
  then show ?thesis ..
qed

lemma thumb_logged: "\<exists>ls. onAxes l c (onButton l' c' g) = logged ls g"
  by (rule logged_then [OF onButton_logged onAxes_logged])

lemma handlers_logged:
  "\<exists>ls. onLeftTrigger c g = logged ls g"
  "\<exists>ls. onLeftThumbstick c g = logged ls g"
  "\<exists>ls. onLeftX c g = logged ls g"
  "\<exists>ls. onLeftY c g = logged ls g"
  "\<exists>ls. onRightTrigger c g = logged ls g"
  "\<exists>ls. onRightThumbstick c g = logged ls g"
  "\<exists>ls. onRightA c g = logged ls g"
  "\<exists>ls. onRightB c g = logged ls g"
  unfolding onLeftTrigger_def onLeftThumbstick_def onLeftX_def onLeftY_def onRightTrigger_def
    onRightThumbstick_def onRightA_def onRightB_def
  by (rule onButton_logged thumb_logged)+

lemma before_right_squeeze:
  "\<exists>ks. onRightTrigger c6 (onLeftY c5 (onLeftX c4 (onLeftThumbstick c3 (onLeftSqueeze c2 (onLeftTrigger c1 g))))) = logged ks g"
proof -
  note 1 = handlers_logged(1) [of c1 g]
  note 2 = logged_then [OF 1 onLeftSqueeze_logged [of c2]]
  note 3 = logged_then [OF 2 handlers_logged(2) [of c3]]
  note 4 = logged_then [OF 3 handlers_logged(3) [of c4]]
  note 5 = logged_then [OF 4 handlers_logged(4) [of c5]]
  show ?thesis by (rule logged_then [OF 5 handlers_logged(5)])
qed

lemma after_right_squeeze:
  "\<exists>ls. onRightB c3 (onRightA c2 (onRightThumbstick c1 g)) = logged ls g"
proof -
  note 1 = handlers_logged(6) [of c1 g]
  note 2 = logged_then [OF 1 handlers_logged(7) [of c2]]
  show ?thesis by (rule logged_then [OF 2 handlers_logged(8)])
qed

lemma onButton_fields [simp]:
  "leftController (onButton l c g) = leftController g"
  "rightController (onButton l c g) = rightController g"
  using onButton_logged [of l c g] by auto

lemma onAxes_fields [simp]:
  "leftController (onAxes l c g) = leftController g"
  "rightController (onAxes l c g) = rightController g"
  using onAxes_logged [of l c g] by auto

lemma onLeftSqueeze_fields [simp]:
  "leftController (onLeftSqueeze c g) = leftController g"
  "rightController (onLeftSqueeze c g) = rightController g"
  using onLeftSqueeze_logged [of c g] by auto

lemma frame_shape:
  "\<exists>ks. (case onRightSqueeze isect (getComponent (rightController g) ''xr-standard-squeeze'') (logged ks g) of
           Inl e \<Rightarrow> processControllerInput isect g = Inl e
         | Inr g7 \<Rightarrow> (\<exists>ls. processControllerInput isect g = Inr (logged ls g7)))"
proof -
  define g6 where "g6 = onRightTrigger (getComponent (rightController g) ''xr-standard-trigger'')
     (onLeftY (getComponent (leftController g) ''y-button'')
     (onLeftX (getComponent (leftController g) ''x-button'')
     (onLeftThumbstick (getComponent (leftController g) ''xr-standard-thumbstick'')
     (onLeftSqueeze (getComponent (leftController g) ''xr-standard-squeeze'')
     (onLeftTrigger (getComponent (leftController g) ''xr-standard-trigger'') g)))))"
  obtain ks where ks: "g6 = logged ks g"
    unfolding g6_def using before_right_squeeze by blast
  define r where "r = onRightSqueeze isect (getComponent (rightController g) ''xr-standard-squeeze'') g6"
  have eq: "processControllerInput isect g =
      (case r of
         Inl e \<Rightarrow> Inl e
       | Inr g7 \<Rightarrow> Inr (onRightB (getComponent (rightController g7) ''b-button'')
           (onRightA (getComponent (rightController g7) ''a-button'')
           (onRightThumbstick (getComponent (rightController g7) ''xr-standard-thumbstick'') g7))))"
    by (simp add: processControllerInput_def Let_def g6_def r_def onLeftTrigger_def
        onLeftThumbstick_def onLeftX_def onLeftY_def onRightTrigger_def onRightThumbstick_def
        onRightA_def split: sum.splits)
  have "case r of Inl e \<Rightarrow> processControllerInput isect g = Inl e
         | Inr g7 \<Rightarrow> (\<exists>ls. processControllerInput isect g = Inr (logged ls g7))"
  proof (cases r)
    case (Inl e)
    then show ?thesis using eq by simp
  next
    case (Inr g7)
    then show ?thesis using eq after_right_squeeze by simp
  qed
  then show ?thesis unfolding r_def ks by blast
qed

lemma grabLoop_done:
  "rightGrabbedObject g \<noteq> None \<or> length (grabbableObjects g) \<le> i \<Longrightarrow> grabLoop isect i g = Inr g"
  by (subst grabLoop.simps) auto

lemma rightGrabbedObject_attach [simp]: "rightGrabbedObject (attach gr m g) = Some m"
  by (simp add: attach_def setParent_def sleep_def split: option.splits)

lemma grabLoop_find:
  assumes "rightGrabbedObject g = None" "rightController g = Some rc" "grip rc = Some gr"
  shows "grabLoop isect i g =
     Inr (case find (isect gr) (drop i (grabbableObjects g)) of None \<Rightarrow> g | Some m \<Rightarrow> attach gr m g)"
  using assms
proof (induction "length (grabbableObjects g) - i" arbitrary: i)
  case 0
  then show ?case by (simp add: grabLoop_done)
next
  case (Suc n)
  then have lt: "i < length (grabbableObjects g)" by simp
  then have dr: "drop i (grabbableObjects g) = grabbableObjects g ! i # drop (Suc i) (grabbableObjects g)"
    by (simp add: Cons_nth_drop_Suc)
  show ?case
  proof (cases "isect gr (grabbableObjects g ! i)")
    case True
    then show ?thesis
      using lt Suc.prems dr by (subst grabLoop.simps) (simp add: grabLoop_done)
  next
    case False
    have "n = length (grabbableObjects g) - Suc i" using Suc.hyps(2) by simp
    from Suc.hyps(1)[OF this Suc.prems] False lt Suc.prems dr show ?thesis
      by (subst grabLoop.simps) simp
  qed
qed

lemma grabLoop_no_grip:
  assumes "rightGrabbedObject g = None"
    and "rightController g = None \<or> (\<exists>rc. rightController g = Some rc \<and> grip rc = None)"
  shows "grabLoop isect 0 g = (if grabbableObjects g = [] then Inr g else Inl TypeError)"
  using assms by (subst grabLoop.simps) auto

lemma attach_fields [simp]:
  "leftController (attach gr m g) = leftController g"
  "rightController (attach gr m g) = rightController g"
  "meshes (attach gr m g) =
     (meshes g)(m := (meshes g m)\<lparr>parent := Some gr,
        physicsImpostor := map_option (\<lambda>im. im\<lparr>asleep := True\<rparr>) (physicsImpostor (meshes g m))\<rparr>)"
  "calls (attach gr m g) =
     calls g @ (case physicsImpostor (meshes g m) of None \<Rightarrow> [] | Some im \<Rightarrow> [Sleep m])
       @ [SetParent m (Some gr)]"
  by (auto simp add: attach_def setParent_def sleep_def split: option.splits)

lemma release_fields [simp]:
  "leftController (release g) = leftController g"
  "rightController (release g) = rightController g"
  "grabbableObjects (release g) = grabbableObjects g"
  "rightGrabbedObject (release g) = None"
  by (auto simp add: release_def setParent_def wakeUp_def split: option.splits)

lemma release_holding:
  assumes "rightGrabbedObject g = Some m"
  shows "meshes (release g) =
     (meshes g)(m := (meshes g m)\<lparr>parent := None,
        physicsImpostor := map_option (\<lambda>im. im\<lparr>asleep := False\<rparr>) (physicsImpostor (meshes g m))\<rparr>)"
    and "calls (release g) =
     calls g @ [SetParent m None]
       @ (case physicsImpostor (meshes g m) of None \<Rightarrow> [] | Some im \<Rightarrow> [WakeUp m])"
  using assms by (auto simp add: release_def setParent_def wakeUp_def split: option.splits)

lemma release_idle: "rightGrabbedObject g = None \<Longrightarrow> release g = g"
  by (simp add: release_def)

lemma frame_noop:
  assumes "getComponent (rightController g) ''xr-standard-squeeze'' = None
     \<or> (\<exists>c. getComponent (rightController g) ''xr-standard-squeeze'' = Some c
           \<and> (\<not> changes_pressed c
               \<or> (pressed c \<and> rightGrabbedObject g \<noteq> None)
               \<or> (\<not> pressed c \<and> rightGrabbedObject g = None)))"
  shows "\<exists>ls. processControllerInput isect g = Inr (logged ls g)"
proof -
  obtain ks where ks: "case onRightSqueeze isect (getComponent (rightController g) ''xr-standard-squeeze'') (logged ks g) of
           Inl e \<Rightarrow> processControllerInput isect g = Inl e
         | Inr g7 \<Rightarrow> (\<exists>ls. processControllerInput isect g = Inr (logged ls g7))"
    using frame_shape by blast
  have "\<exists>ms. onRightSqueeze isect (getComponent (rightController g) ''xr-standard-squeeze'') (logged ks g)
      = Inr (logged ms g)"
    using assms
    by (auto simp add: onRightSqueeze_def Logger_Log_logged logged_logged grabLoop_done release_idle)
  then obtain ms where "onRightSqueeze isect (getComponent (rightController g) ''xr-standard-squeeze'') (logged ks g)
      = Inr (logged ms g)" by blast
  with ks show ?thesis by (auto simp add: logged_logged)
qed

lemma frame_press_idle:
  assumes "getComponent (rightController g) ''xr-standard-squeeze'' = Some c"
    and "changes_pressed c" and "pressed c" and "rightGrabbedObject g = None"
    and "rightController g = Some rc" and "grip rc = Some gr"
  shows "\<exists>ks ls. processControllerInput isect g =
     Inr (logged ls (case find (isect gr) (grabbableObjects g) of
                       None \<Rightarrow> logged ks g
                     | Some m \<Rightarrow> attach gr m (logged ks g)))"
proof -
  obtain ks where ks: "case onRightSqueeze isect (getComponent (rightController g) ''xr-standard-squeeze'') (logged ks g) of
           Inl e \<Rightarrow> processControllerInput isect g = Inl e
         | Inr g7 \<Rightarrow> (\<exists>ls. processControllerInput isect g = Inr (logged ls g7))"
    using frame_shape by blast
  let ?g0 = "logged (ks @ [''right squeeze pressed'']) g"
  have "grabLoop isect 0 ?g0 =
     Inr (case find (isect gr) (drop 0 (grabbableObjects ?g0)) of None \<Rightarrow> ?g0 | Some m \<Rightarrow> attach gr m ?g0)"
    by (rule grabLoop_find [of ?g0 rc gr]) (simp_all add: assms)
  then have "onRightSqueeze isect (getComponent (rightController g) ''xr-standard-squeeze'') (logged ks g) =
     Inr (case find (isect gr) (grabbableObjects g) of None \<Rightarrow> ?g0 | Some m \<Rightarrow> attach gr m ?g0)"
    using assms by (simp add: onRightSqueeze_def Logger_Log_logged logged_logged)
  with ks show ?thesis by auto
qed

lemma frame_press_no_grip:
  assumes "getComponent (rightController g) ''xr-standard-squeeze'' = Some c"
    and "changes_pressed c" and "pressed c" and "rightGrabbedObject g = None"
    and "rightController g = Some rc" and "grip rc = None" and "grabbableObjects g \<noteq> []"
  shows "processControllerInput isect g = Inl TypeError"
proof -
  obtain ks where ks: "case onRightSqueeze isect (getComponent (rightController g) ''xr-standard-squeeze'') (logged ks g) of
           Inl e \<Rightarrow> processControllerInput isect g = Inl e
         | Inr g7 \<Rightarrow> (\<exists>ls. processControllerInput isect g = Inr (logged ls g7))"
    using frame_shape by blast
  let ?g0 = "logged (ks @ [''right squeeze pressed'']) g"
  have "grabLoop isect 0 ?g0 = (if grabbableObjects ?g0 = [] then Inr ?g0 else Inl TypeError)"
    by (rule grabLoop_no_grip) (simp_all add: assms)
  then have "onRightSqueeze isect (getComponent (rightController g) ''xr-standard-squeeze'') (logged ks g) =
     Inl TypeError"
    using assms by (simp add: onRightSqueeze_def Logger_Log_logged logged_logged)
  with ks show ?thesis by auto
qed

lemma frame_press_empty:
  assumes "getComponent (rightController g) ''xr-standard-squeeze'' = Some c"
    and "changes_pressed c" and "pressed c" and "grabbableObjects g = []"
  shows "\<exists>ls. processControllerInput isect g = Inr (logged ls g)"
proof -
  obtain ks where ks: "case onRightSqueeze isect (getComponent (rightController g) ''xr-standard-squeeze'') (logged ks g) of
           Inl e \<Rightarrow> processControllerInput isect g = Inl e
         | Inr g7 \<Rightarrow> (\<exists>ls. processControllerInput isect g = Inr (logged ls g7))"
    using frame_shape by blast
  have "onRightSqueeze isect (getComponent (rightController g) ''xr-standard-squeeze'') (logged ks g)
      = Inr (logged (ks @ [''right squeeze pressed'']) g)"
    using assms
    by (simp add: onRightSqueeze_def Logger_Log_logged logged_logged grabLoop_done)
  with ks show ?thesis by (auto simp add: logged_logged)
qed

lemma frame_release:
  assumes "getComponent (rightController g) ''xr-standard-squeeze'' = Some c"
    and "changes_pressed c" and "\<not> pressed c"
  shows "\<exists>ks ls. processControllerInput isect g = Inr (logged ls (release (logged ks g)))"
proof -
  obtain ks where ks: "case onRightSqueeze isect (getComponent (rightController g) ''xr-standard-squeeze'') (logged ks g) of
           Inl e \<Rightarrow> processControllerInput isect g = Inl e
         | Inr g7 \<Rightarrow> (\<exists>ls. processControllerInput isect g = Inr (logged ls g7))"
    using frame_shape by blast
  have "onRightSqueeze isect (getComponent (rightController g) ''xr-standard-squeeze'') (logged ks g)
      = Inr (release (logged (ks @ [''right squeeze released'']) g))"
    using assms by (simp add: onRightSqueeze_def Logger_Log_logged logged_logged)
  with ks show ?thesis by auto
qed

lemma filter_isLog_map [simp]: "filter (\<lambda>c. \<not> isLog c) (map Log ls) = []"
  by (induction ls) auto

lemma sideEffects_logged [simp]: "sideEffects g (logged ls g) = []"
  by (simp add: sideEffects_def newCalls_def)

lemma newCalls_logged [simp]: "newCalls g (logged ls g) = map Log ls"
  by (simp add: newCalls_def)

lemma find_first_index:
  assumes "find P xs = Some x"
  shows "\<exists>i<length xs. xs ! i = x \<and> P x \<and> (\<forall>j<i. \<not> P (xs ! j))"
  using assms by (auto simp add: find_Some_iff)

lemma logged_unfold: "\<exists>ms. logged ls g = g\<lparr>calls := calls g @ map Log ms\<rparr>"
  unfolding logged_def by blast

lemma getComponent_Some_controller:
  "getComponent src cid = Some c \<Longrightarrow> \<exists>s. src = Some s"
  by (cases src) (simp_all add: getComponent_def)

section \<open>What the reachable states have in common\<close>

lemma frame_cases:
  assumes "processControllerInput isect g = Inr g'"
  shows "(\<exists>ls. g' = logged ls g)
       \<or> (\<exists>ks ls rc gr m. rightGrabbedObject g = None \<and> rightController g = Some rc
             \<and> grip rc = Some gr \<and> find (isect gr) (grabbableObjects g) = Some m
             \<and> g' = logged ls (attach gr m (logged ks g)))
       \<or> (\<exists>ks ls m. rightGrabbedObject g = Some m \<and> g' = logged ls (release (logged ks g)))"
proof (cases "getComponent (rightController g) ''xr-standard-squeeze''")
  case None
  then show ?thesis using frame_noop [of g isect] assms by auto
next
  case (Some c)
  then obtain rc where rc: "rightController g = Some rc"
    using getComponent_Some_controller by blast
  consider (level) "\<not> changes_pressed c"
    | (press) "changes_pressed c" "pressed c"
    | (release) "changes_pressed c" "\<not> pressed c"
    by blast
  then show ?thesis
  proof cases
    case level
    then show ?thesis using frame_noop [of g isect] assms Some by auto
  next
    case press
    show ?thesis
    proof (cases "rightGrabbedObject g")
      case (Some m)
      then show ?thesis using frame_noop [of g isect] assms \<open>getComponent (rightController g) ''xr-standard-squeeze'' = Some c\<close> press
        by auto
    next
      case None
      show ?thesis
      proof (cases "grip rc")
        case (Some gr)
        from frame_press_idle [OF \<open>getComponent (rightController g) ''xr-standard-squeeze'' = Some c\<close> press None rc Some, of isect]
        obtain ks ls where r: "processControllerInput isect g =
           Inr (logged ls (case find (isect gr) (grabbableObjects g) of
                       None \<Rightarrow> logged ks g
                     | Some m \<Rightarrow> attach gr m (logged ks g)))" by blast
        show ?thesis
        proof (cases "find (isect gr) (grabbableObjects g)")
          case None
          with r assms have "g' = logged (ks @ ls) g" by (simp add: logged_logged)
          then show ?thesis by blast
        next
          case (Some m)
          with r assms have "g' = logged ls (attach gr m (logged ks g))" by simp
          then show ?thesis using \<open>rightGrabbedObject g = None\<close> rc \<open>grip rc = Some gr\<close> Some
            by blast
        qed
      next
        case gnone: None
        show ?thesis
        proof (cases "grabbableObjects g = []")
          case True
          then show ?thesis
            using frame_press_empty [OF \<open>getComponent (rightController g) ''xr-standard-squeeze'' = Some c\<close> press True, of isect] assms
            by auto
        next
          case False
          then show ?thesis
            using frame_press_no_grip [OF \<open>getComponent (rightController g) ''xr-standard-squeeze'' = Some c\<close> press None rc gnone False, of isect] assms
            by simp
        qed
      qed
    qed
  next
    case release
    from frame_release [OF Some release, of isect] assms
    obtain ks ls where r: "g' = logged ls (release (logged ks g))" by auto
    show ?thesis
    proof (cases "rightGrabbedObject g")
      case None
      then have "g' = logged (ks @ ls) g" using r by (simp add: release_idle logged_logged)
      then show ?thesis by blast
    next
      case (Some m)
      then show ?thesis using r by blast
    qed
  qed
qed

lemma grabInvariant_logged:
  assumes "grabInvariant b g"
  shows "grabInvariant b (logged ls g)"
  using assms unfolding grabInvariant_def by auto

lemma grabInvariant_attach:
  assumes inv: "grabInvariant b g"
    and f: "find (isect gr) (grabbableObjects g) = Some m"
  shows "grabInvariant b (attach gr m g)"
proof -
  from f have mem: "m \<in> set (grabbableObjects g)" by (auto simp add: find_Some_iff)
  have 1: "\<not> b \<longrightarrow> grabbableObjects (attach gr m g) = []"
    using inv unfolding grabInvariant_def by simp
  have 2: "physicsImpostor (meshes (attach gr m g) x) \<noteq> None"
    if "x \<in> set (grabbableObjects g)" for x
    using inv that unfolding grabInvariant_def by auto
  have 3: "m \<in> set (grabbableObjects (attach gr m g))
       \<and> (\<exists>c\<in>set (calls (attach gr m g)). isGrabOf m c)"
    using mem by simp
  show ?thesis
    unfolding grabInvariant_def using 1 2 3 by simp
qed

lemma grabInvariant_release:
  assumes inv: "grabInvariant b g" and hold: "rightGrabbedObject g = Some m"
  shows "grabInvariant b (release g)"
proof -
  have 1: "\<not> b \<longrightarrow> grabbableObjects (release g) = []"
    using inv unfolding grabInvariant_def by simp
  have 2: "physicsImpostor (meshes (release g) x) \<noteq> None"
    if "x \<in> set (grabbableObjects g)" for x
    using inv that unfolding grabInvariant_def by (auto simp add: release_holding [OF hold])
  show ?thesis
    unfolding grabInvariant_def using 1 2 by simp
qed

lemma grabInvariant_frame:
  assumes "grabInvariant b g" and "processControllerInput isect g = Inr g'"
  shows "grabInvariant b g'"
proof -
  from frame_cases [OF assms(2)]
  consider (noop) ls where "g' = logged ls g"
    | (grab) ks ls rc gr m where "rightGrabbedObject g = None" "rightController g = Some rc"
        "grip rc = Some gr" "find (isect gr) (grabbableObjects g) = Some m"
        "g' = logged ls (attach gr m (logged ks g))"
    | (drop) ks ls m where "rightGrabbedObject g = Some m" "g' = logged ls (release (logged ks g))"
    by blast
  then show ?thesis
  proof cases
    case noop
    then show ?thesis using assms(1) by (simp add: grabInvariant_logged)
  next
    case grab
    have "grabInvariant b (attach gr m (logged ks g))"
      by (rule grabInvariant_attach [where isect = isect])
        (simp_all add: grab grabInvariant_logged assms(1))
    then show ?thesis using grab(5) by (simp add: grabInvariant_logged)
  next
    case drop
    have "grabInvariant b (release (logged ks g))"
      by (rule grabInvariant_release [where m = m])
        (simp_all add: drop grabInvariant_logged assms(1))
    then show ?thesis using drop(2) by (simp add: grabInvariant_logged)
  qed
qed

lemma grabInvariant_constructor: "grabInvariant False (constructor ms)"
  by (simp add: grabInvariant_def constructor_def)

lemma grabInvariant_controllerAdded:
  assumes "grabInvariant b g"
  shows "grabInvariant b (onControllerAdded inputSource g)"
  using assms unfolding grabInvariant_def onControllerAdded_def by auto

lemma grabInvariant_pollInput:
  assumes "grabInvariant b g"
  shows "grabInvariant b (pollInput mcL mcR g)"
  using assms unfolding grabInvariant_def pollInput_def by auto

lemma grabInvariant_render:
  assumes "grabInvariant b g"
  shows "grabInvariant b (render woken g)"
  using assms unfolding grabInvariant_def render_def by auto

lemma grabInvariant_idle_before_load:
  assumes "grabInvariant False g"
  shows "grabbableObjects g = []" and "rightGrabbedObject g = None"
proof -
  from assms show e: "grabbableObjects g = []" unfolding grabInvariant_def by simp
  with assms show "rightGrabbedObject g = None"
    unfolding grabInvariant_def by (cases "rightGrabbedObject g") auto
qed

lemma onFinishMesh_sleeping:
  assumes "rightGrabbedObject g = None"
    and "\<forall>x\<in>set (grabbableObjects g). name (meshes g x) \<noteq> ''rpgpp_lt_table_01''
           \<and> (\<exists>im. physicsImpostor (meshes g x) = Some im \<and> asleep im)"
  shows "rightGrabbedObject (onFinishMesh m g) = None
       \<and> (\<forall>x\<in>set (grabbableObjects (onFinishMesh m g)).
             name (meshes (onFinishMesh m g) x) \<noteq> ''rpgpp_lt_table_01''
           \<and> (\<exists>im. physicsImpostor (meshes (onFinishMesh m g) x) = Some im \<and> asleep im))"
proof -
  consider (tableMesh) "name (meshes g m) = ''rpgpp_lt_table_01''"
    | (propMesh) "name (meshes g m) \<noteq> ''rpgpp_lt_table_01''" "parentIsProps (meshes g m)"
    | (otherMesh) "name (meshes g m) \<noteq> ''rpgpp_lt_table_01''" "\<not> parentIsProps (meshes g m)"
    by blast
  then show ?thesis
  proof cases
    case tableMesh
    then have "m \<notin> set (grabbableObjects g)" using assms(2) by auto
    then show ?thesis
      using assms tableMesh by (auto simp add: onFinishMesh_def setParent_def newImpostor_def)
  next
    case propMesh
    then show ?thesis
      using assms by (auto simp add: onFinishMesh_def setParent_def newImpostor_def sleep_def)
  next
    case otherMesh
    then show ?thesis using assms by (simp add: onFinishMesh_def)
  qed
qed

lemma fold_onFinishMesh_sleeping:
  assumes "rightGrabbedObject g = None"
    and "\<forall>x\<in>set (grabbableObjects g). name (meshes g x) \<noteq> ''rpgpp_lt_table_01''
           \<and> (\<exists>im. physicsImpostor (meshes g x) = Some im \<and> asleep im)"
  shows "rightGrabbedObject (fold onFinishMesh ms g) = None
       \<and> (\<forall>x\<in>set (grabbableObjects (fold onFinishMesh ms g)).
             name (meshes (fold onFinishMesh ms g) x) \<noteq> ''rpgpp_lt_table_01''
           \<and> (\<exists>im. physicsImpostor (meshes (fold onFinishMesh ms g) x) = Some im \<and> asleep im))"
  using assms
proof (induction ms arbitrary: g)
  case Nil
  then show ?case by simp
next
  case (Cons m ms)
  from onFinishMesh_sleeping [OF Cons.prems, of m]
  have "rightGrabbedObject (onFinishMesh m g) = None"
    and "\<forall>x\<in>set (grabbableObjects (onFinishMesh m g)).
             name (meshes (onFinishMesh m g) x) \<noteq> ''rpgpp_lt_table_01''
           \<and> (\<exists>im. physicsImpostor (meshes (onFinishMesh m g) x) = Some im \<and> asleep im)"
    by blast+
  from Cons.IH [OF this] show ?case by simp
qed

lemma onSuccess_fields:
  assumes "onSuccess ms g = Inr g1"
  shows "grabbableObjects g1 = grabbableObjects g" and "rightGrabbedObject g1 = rightGrabbedObject g"
  using assms by (auto simp add: onSuccess_def split: list.splits)

lemma onFinish_sleeping:
  assumes "grabbableObjects g = []" and "rightGrabbedObject g = None"
  shows "rightGrabbedObject (onFinish ms g) = None
       \<and> (\<forall>x\<in>set (grabbableObjects (onFinish ms g)).
             \<exists>im. physicsImpostor (meshes (onFinish ms g) x) = Some im \<and> asleep im)"
proof -
  have "\<forall>x\<in>set (grabbableObjects g). name (meshes g x) \<noteq> ''rpgpp_lt_table_01''
           \<and> (\<exists>im. physicsImpostor (meshes g x) = Some im \<and> asleep im)"
    using assms(1) by simp
  from fold_onFinishMesh_sleeping [OF assms(2) this, of ms]
  show ?thesis by (simp add: onFinish_def Let_def)
qed

lemma loaded_sleeping:
  assumes "grabInvariant False g" and "onSuccess ms g = Inr g1"
  shows "rightGrabbedObject (onFinish ms g1) = None
       \<and> (\<forall>x\<in>set (grabbableObjects (onFinish ms g1)).
             \<exists>im. physicsImpostor (meshes (onFinish ms g1) x) = Some im \<and> asleep im)"
  using onFinish_sleeping [of g1 ms] grabInvariant_idle_before_load [OF assms(1)]
    onSuccess_fields [OF assms(2)] by simp

lemma grabInvariant_loaded:
  assumes "grabInvariant False g" and "onSuccess ms g = Inr g1"
  shows "grabInvariant True (onFinish ms g1)"
  using loaded_sleeping [OF assms] unfolding grabInvariant_def by auto

lemma reachable_grabInvariant: "reachable b g \<Longrightarrow> grabInvariant b g"
proof (induction rule: reachable.induct)
  case (constructed ms)
  show ?case by (rule grabInvariant_constructor)
next
  case (controllerAdded b g inputSource)
  then show ?case by (simp add: grabInvariant_controllerAdded)
next
  case (inputPolled b g mcL mcR)
  then show ?case by (simp add: grabInvariant_pollInput)
next
  case (assetsFinished g loadedMeshes g1)
  then show ?case by (simp add: grabInvariant_loaded)
next
  case (frame b g isect g')
  then show ?case using grabInvariant_frame by blast
next
  case (rendered b g woken)
  then show ?case by (simp add: grabInvariant_render)
qed

text \<open>The callback of the render loop stays within the reachable states.\<close>

lemma reachable_renderLoop:
  assumes "reachable b g" and "renderLoop isect woken g = Inr g'"
  shows "reachable b g'"
proof (cases "processControllerInput isect g")
  case (Inl e)
  then show ?thesis using assms(2) by (simp add: renderLoop_def update_def)
next
  case (Inr g1)
  then have "g' = render woken g1" using assms(2) by (simp add: renderLoop_def update_def)
  then show ?thesis
    using reachable.rendered [OF reachable.frame [OF assms(1) Inr]] by simp
qed

section \<open>Holding on the grip, step by step\<close>

lemma heldOnGrip_iff:
  "heldOnGrip g obj \<longleftrightarrow>
     rightGrabbedObject g = Some obj
     \<and> (\<exists>rc gr im. rightController g = Some rc \<and> grip rc = Some gr
           \<and> parent (meshes g obj) = Some gr
           \<and> physicsImpostor (meshes g obj) = Some im \<and> asleep im)"
  unfolding heldOnGrip_def by (auto split: option.splits)

lemma heldOnGrip_logged: "heldOnGrip (logged ls g) obj = heldOnGrip g obj"
  by (simp add: heldOnGrip_iff)

lemma grab_establishes:
  assumes inv: "grabInvariant b g" and idle: "rightGrabbedObject g = None"
    and fr: "processControllerInput isect g = Inr g'" and held: "rightGrabbedObject g' = Some obj"
  shows "heldOnGrip g' obj"
proof -
  from frame_cases [OF fr]
  consider (noop) ls where "g' = logged ls g"
    | (grab) ks ls rc gr m where "rightGrabbedObject g = None" "rightController g = Some rc"
        "grip rc = Some gr" "find (isect gr) (grabbableObjects g) = Some m"
        "g' = logged ls (attach gr m (logged ks g))"
    | (drop) ks ls m where "rightGrabbedObject g = Some m" "g' = logged ls (release (logged ks g))"
    by blast
  then show ?thesis
  proof cases
    case noop
    then show ?thesis using idle held by simp
  next
    case grab
    from grab(5) held have m: "m = obj" by simp
    from grab(4) have "m \<in> set (grabbableObjects g)" by (auto simp add: find_Some_iff)
    with inv obtain im where "physicsImpostor (meshes g m) = Some im"
      unfolding grabInvariant_def by auto
    then show ?thesis
      unfolding heldOnGrip_iff using grab m by simp
  next
    case drop
    then show ?thesis using idle by simp
  qed
qed

lemma frame_keeps_held:
  assumes h: "heldOnGrip g obj"
    and fr: "processControllerInput isect g = Inr g'" and held: "rightGrabbedObject g' = Some obj"
  shows "heldOnGrip g' obj"
proof -
  from h have hold: "rightGrabbedObject g = Some obj" by (simp add: heldOnGrip_def)
  from frame_cases [OF fr]
  consider (noop) ls where "g' = logged ls g"
    | (grab) "rightGrabbedObject g = None"
    | (drop) ks ls m where "rightGrabbedObject g = Some m" "g' = logged ls (release (logged ks g))"
    by auto
  then show ?thesis
  proof cases
    case noop
    then show ?thesis using h by (simp add: heldOnGrip_logged)
  next
    case grab
    then show ?thesis using hold by simp
  next
    case drop
    then show ?thesis using held by simp
  qed
qed

lemma frame_keeps_meshes_while_held:
  assumes hold: "rightGrabbedObject g = Some obj"
    and fr: "processControllerInput isect g = Inr g'" and held: "rightGrabbedObject g' = Some obj"
  shows "meshes g' = meshes g"
proof -
  from frame_cases [OF fr]
  consider (noop) ls where "g' = logged ls g"
    | (grab) "rightGrabbedObject g = None"
    | (drop) ks ls m where "rightGrabbedObject g = Some m" "g' = logged ls (release (logged ks g))"
    by auto
  then show ?thesis
  proof cases
    case noop
    then show ?thesis by simp
  next
    case grab
    then show ?thesis using hold by simp
  next
    case drop
    then show ?thesis using held by simp
  qed
qed

lemma frame_wakes_only_released:
  assumes fr: "processControllerInput isect g = Inr g'"
    and a: "physicsImpostor (meshes g m) = Some im" "asleep im"
    and w: "physicsImpostor (meshes g' m) = Some im'" "\<not> asleep im'"
  shows "rightGrabbedObject g = Some m \<and> rightGrabbedObject g' = None"
proof -
  from frame_cases [OF fr]
  consider (noop) ls where "g' = logged ls g"
    | (grab) ks ls gr x where "g' = logged ls (attach gr x (logged ks g))"
    | (drop) ks ls x where "rightGrabbedObject g = Some x" "g' = logged ls (release (logged ks g))"
    by blast
  then show ?thesis
  proof cases
    case noop
    then show ?thesis using a w by simp
  next
    case grab
    then show ?thesis using a w by (cases "m = x") auto
  next
    case drop
    have h: "rightGrabbedObject (logged ks g) = Some x" using drop(1) by simp
    have "m = x"
    proof (rule ccontr)
      assume "m \<noteq> x"
      then have "meshes g' m = meshes g m"
        using drop(2) by (simp add: release_holding [OF h])
      with a w show False by simp
    qed
    then show ?thesis using drop by simp
  qed
qed


section \<open>The example run, evaluated\<close>

lemmas example_defs = exampleWorld_def squeezeInput_def connectedExample_def renamedExample_def
  loadedExample_def pressedExample_def grabbedUpdate_def grabbedExample_def releasingExample_def
  releasedUpdate_def wokenExample_def pressedAgainExample_def regrabbedUpdate_def
  heldAwakeExample_def replacedExample_def hand_def squeeze_def propsGroup_def rightGrip_def
  otherGrip_def environmentGroup_def constructor_def onControllerAdded_def endsWith_def
  onFinish_def onFinishMesh_def parentIsProps_def setParent_def sleep_def newImpostor_def
  pollInput_def render_def attach_def release_def wakeUp_def Let_def

lemmas handler_defs = processControllerInput_def getComponent_def onLeftTrigger_def onLeftSqueeze_def
  onLeftThumbstick_def onLeftX_def onLeftY_def onRightTrigger_def onRightSqueeze_def
  onRightThumbstick_def onRightA_def onRightB_def onButton_def onAxes_def Logger_Log_def

lemma connectedExample_renamed: "onSuccess [0, 1, 2, 3] connectedExample = Inr renamedExample"
  by (simp add: onSuccess_def connectedExample_def renamedExample_def constructor_def
      onControllerAdded_def)

lemma loadedExample_registry: "grabbableObjects loadedExample = [2, 3]"
  by (simp add: example_defs)

lemma pressedExample_frame:
  "processControllerInput (\<lambda>gr m. True) pressedExample = Inr grabbedUpdate"
  by (simp add: handler_defs example_defs grabLoop.simps)

lemma releasingExample_frame:
  "processControllerInput (\<lambda>gr m. True) releasingExample = Inr releasedUpdate"
  by (simp add: handler_defs example_defs)

lemma pressedAgainExample_frame:
  "processControllerInput (\<lambda>gr m. m = 3) pressedAgainExample = Inr regrabbedUpdate"
  by (simp add: handler_defs example_defs grabLoop.simps)

lemma reachable_connectedExample: "reachable False connectedExample"
  unfolding connectedExample_def
  by (rule reachable.controllerAdded [OF reachable.constructed])

lemma reachable_loadedExample: "reachable True loadedExample"
  unfolding loadedExample_def
  by (rule reachable.assetsFinished [OF reachable_connectedExample connectedExample_renamed])

lemma reachable_pressedExample: "reachable True pressedExample"
  unfolding pressedExample_def by (rule reachable.inputPolled [OF reachable_loadedExample])

lemma reachable_grabbedUpdate: "reachable True grabbedUpdate"
  by (rule reachable.frame [OF reachable_pressedExample pressedExample_frame])

lemma reachable_grabbedExample: "reachable True grabbedExample"
  unfolding grabbedExample_def by (rule reachable.rendered [OF reachable_grabbedUpdate])

lemma reachable_releasingExample: "reachable True releasingExample"
  unfolding releasingExample_def by (rule reachable.inputPolled [OF reachable_grabbedExample])

lemma reachable_releasedUpdate: "reachable True releasedUpdate"
  by (rule reachable.frame [OF reachable_releasingExample releasingExample_frame])

lemma reachable_wokenExample: "reachable True wokenExample"
  unfolding wokenExample_def by (rule reachable.rendered [OF reachable_releasedUpdate])

lemma reachable_heldAwakeExample: "reachable True heldAwakeExample"
proof -
  have "reachable True pressedAgainExample"
    unfolding pressedAgainExample_def by (rule reachable.inputPolled [OF reachable_wokenExample])
  then have "reachable True regrabbedUpdate"
    by (rule reachable.frame [OF _ pressedAgainExample_frame])
  then show ?thesis
    unfolding heldAwakeExample_def by (rule reachable.rendered)
qed

lemma reachable_replacedExample: "reachable True replacedExample"
  unfolding replacedExample_def by (rule reachable.controllerAdded [OF reachable_grabbedExample])

section \<open>The claims\<close>

subsection \<open>C1: a press edge over an object attaches it\<close>

text \<open>
  C1. In a frame where the right squeeze component has a press edge (\<open>changes.pressed\<close>
  set and \<open>pressed\<close> true), the hand is idle, the right controller has a grip and the grip
  intersects some registered object (every registered object having an impostor, as scene
  loading leaves them), \<open>processControllerInput\<close> returns normally in a state holding an
  intersecting registered object \<open>obj\<close> (the first one the scan finds): the impostor of
  \<open>obj\<close> is asleep, its parent is the grip, and the side effects of the frame are exactly
  \<open>sleep\<close> on \<open>obj\<close> followed by \<open>setParent(grip)\<close> on \<open>obj\<close>.
\<close>

theorem press_edge_attaches_first_overlap:
  assumes "rightController g = Some rc" and "grip rc = Some gr"
    and "getComponent (rightController g) ''xr-standard-squeeze'' = Some c"
    and "changes_pressed c" and "pressed c"
    and "rightGrabbedObject g = None"
    and "\<exists>m\<in>set (grabbableObjects g). isect gr m"
    and "\<forall>m\<in>set (grabbableObjects g). physicsImpostor (meshes g m) \<noteq> None"
  shows "\<exists>g' obj im. processControllerInput isect g = Inr g'
           \<and> find (isect gr) (grabbableObjects g) = Some obj
           \<and> obj \<in> set (grabbableObjects g) \<and> isect gr obj
           \<and> rightGrabbedObject g' = Some obj
           \<and> physicsImpostor (meshes g' obj) = Some im \<and> asleep im
           \<and> parent (meshes g' obj) = Some gr
           \<and> calls g' = calls g @ newCalls g g'
           \<and> sideEffects g g' = [Sleep obj, SetParent obj (Some gr)]"
proof -
  from assms(7) obtain obj where obj: "find (isect gr) (grabbableObjects g) = Some obj"
    by (cases "find (isect gr) (grabbableObjects g)") (auto simp add: find_None_iff)
  then have mem: "obj \<in> set (grabbableObjects g)" and hit: "isect gr obj"
    by (auto simp add: find_Some_iff)
  with assms(8) obtain im where im: "physicsImpostor (meshes g obj) = Some im" by auto
  from frame_press_idle [OF assms(3-6) assms(1,2), of isect] obj
  obtain ks ls where g': "processControllerInput isect g = Inr (logged ls (attach gr obj (logged ks g)))"
    by auto
  let ?g' = "logged ls (attach gr obj (logged ks g))"
  have "rightGrabbedObject ?g' = Some obj" by simp
  moreover have "physicsImpostor (meshes ?g' obj) = Some (im\<lparr>asleep := True\<rparr>)"
    using im by simp
  moreover have "parent (meshes ?g' obj) = Some gr" by simp
  moreover have "calls ?g' = calls g @ newCalls g ?g'"
    by (simp add: newCalls_def)
  moreover have "sideEffects g ?g' = [Sleep obj, SetParent obj (Some gr)]"
    using im by (simp add: sideEffects_def newCalls_def)
  ultimately show ?thesis using g' obj mem hit by auto
qed

theorem press_edge_attaches_first_overlap_witness:
  "\<exists>g' im. processControllerInput (\<lambda>gr m. True) (idleState (squeeze True True)) = Inr g'
      \<and> rightGrabbedObject g' = Some 1
      \<and> physicsImpostor (meshes g' 1) = Some im \<and> asleep im
      \<and> parent (meshes g' 1) = Some rightGrip
      \<and> sideEffects (idleState (squeeze True True)) g' = [Sleep 1, SetParent 1 (Some rightGrip)]"
proof -
  let ?g = "idleState (squeeze True True)"
  let ?rc = "hand ''controller-right'' (Some rightGrip) (squeeze True True)"
  have h1: "rightController ?g = Some ?rc" by (simp add: idleState_def)
  have h2: "grip ?rc = Some rightGrip" by (simp add: hand_def)
  have h3: "getComponent (rightController ?g) ''xr-standard-squeeze'' = Some (squeeze True True)"
    by (simp add: idleState_def getComponent_def hand_def)
  have h4: "changes_pressed (squeeze True True)" by (simp add: squeeze_def)
  have h5: "pressed (squeeze True True)" by (simp add: squeeze_def)
  have h6: "rightGrabbedObject ?g = None" by (simp add: idleState_def)
  have h7: "\<exists>m\<in>set (grabbableObjects ?g). (\<lambda>gr m. True) rightGrip m" by (auto simp add: idleState_def)
  have h8: "\<forall>m\<in>set (grabbableObjects ?g). physicsImpostor (meshes ?g m) \<noteq> None"
    by (simp add: idleState_def sleepingProp_def)
  from press_edge_attaches_first_overlap [OF h1 h2 h3 h4 h5 h6 h7 h8]
  obtain g' obj im where r: "processControllerInput (\<lambda>gr m. True) ?g = Inr g'"
    "find ((\<lambda>gr m. True) rightGrip) (grabbableObjects ?g) = Some obj"
    "rightGrabbedObject g' = Some obj" "physicsImpostor (meshes g' obj) = Some im" "asleep im"
    "parent (meshes g' obj) = Some rightGrip"
    "sideEffects ?g g' = [Sleep obj, SetParent obj (Some rightGrip)]"
    by blast
  from r(2) have "obj = 1" by (simp add: idleState_def)
  with r show ?thesis by blast
qed

subsection \<open>C2: a release edge while holding detaches the object\<close>

text \<open>
  C2. In a frame where the right squeeze component has a release edge
  (\<open>changes.pressed\<close> set and \<open>pressed\<close> false) while the hand holds \<open>obj\<close>, whose
  impostor exists, \<open>processControllerInput\<close> returns normally in an idle state
  (\<open>rightGrabbedObject\<close> is null): the parent of \<open>obj\<close> is null, its impostor is awake,
  the side effects of the frame are exactly \<open>setParent(null)\<close> then \<open>wakeUp\<close> on
  \<open>obj\<close>, and \<open>wakeUp\<close> on \<open>obj\<close> is called exactly once.
\<close>

theorem release_edge_detaches:
  assumes "getComponent (rightController g) ''xr-standard-squeeze'' = Some c"
    and "changes_pressed c" and "\<not> pressed c"
    and "rightGrabbedObject g = Some obj"
    and "physicsImpostor (meshes g obj) = Some im"
  shows "\<exists>g'. processControllerInput isect g = Inr g'
           \<and> rightGrabbedObject g' = None
           \<and> parent (meshes g' obj) = None
           \<and> physicsImpostor (meshes g' obj) = Some (im\<lparr>asleep := False\<rparr>)
           \<and> calls g' = calls g @ newCalls g g'
           \<and> sideEffects g g' = [SetParent obj None, WakeUp obj]
           \<and> length (filter (\<lambda>c. c = WakeUp obj) (newCalls g g')) = 1"
proof -
  from frame_release [OF assms(1-3), of isect]
  obtain ks ls where g': "processControllerInput isect g = Inr (logged ls (release (logged ks g)))"
    by auto
  let ?g' = "logged ls (release (logged ks g))"
  have h: "rightGrabbedObject (logged ks g) = Some obj" using assms(4) by simp
  have "rightGrabbedObject ?g' = None" by simp
  moreover have "parent (meshes ?g' obj) = None"
    by (simp add: release_holding [OF h])
  moreover have "physicsImpostor (meshes ?g' obj) = Some (im\<lparr>asleep := False\<rparr>)"
    using assms(5) by (simp add: release_holding [OF h])
  moreover have "calls ?g' = calls g @ newCalls g ?g'"
    by (simp add: newCalls_def release_holding [OF h])
  moreover have "sideEffects g ?g' = [SetParent obj None, WakeUp obj]"
    using assms(5) by (simp add: sideEffects_def newCalls_def release_holding [OF h])
  moreover have "length (filter (\<lambda>c. c = WakeUp obj) (newCalls g ?g')) = 1"
    using assms(5) by (simp add: newCalls_def release_holding [OF h] filter_empty_conv image_iff)
  ultimately show ?thesis using g' by auto
qed

theorem release_edge_detaches_witness:
  "\<exists>g'. processControllerInput (\<lambda>gr m. True) (holdingState (squeeze False True)) = Inr g'
      \<and> rightGrabbedObject g' = None
      \<and> parent (meshes g' 1) = None
      \<and> physicsImpostor (meshes g' 1) = Some \<lparr>mass = 1, asleep = False\<rparr>
      \<and> sideEffects (holdingState (squeeze False True)) g' = [SetParent 1 None, WakeUp 1]
      \<and> length (filter (\<lambda>c. c = WakeUp 1) (newCalls (holdingState (squeeze False True)) g')) = 1"
proof -
  let ?g = "holdingState (squeeze False True)"
  have h1: "getComponent (rightController ?g) ''xr-standard-squeeze'' = Some (squeeze False True)"
    by (simp add: holdingState_def getComponent_def hand_def)
  have h2: "changes_pressed (squeeze False True)" by (simp add: squeeze_def)
  have h3: "\<not> pressed (squeeze False True)" by (simp add: squeeze_def)
  have h4: "rightGrabbedObject ?g = Some 1" by (simp add: holdingState_def)
  have h5: "physicsImpostor (meshes ?g 1) = Some \<lparr>mass = 1, asleep = True\<rparr>"
    by (simp add: holdingState_def sleepingProp_def)
  from release_edge_detaches [OF h1 h2 h3 h4 h5, of "\<lambda>gr m. True"]
  obtain g' where "processControllerInput (\<lambda>gr m. True) ?g = Inr g'"
    "rightGrabbedObject g' = None" "parent (meshes g' 1) = None"
    "physicsImpostor (meshes g' 1) = Some (\<lparr>mass = 1, asleep = True\<rparr>\<lparr>asleep := False\<rparr>)"
    "sideEffects ?g g' = [SetParent 1 None, WakeUp 1]"
    "length (filter (\<lambda>c. c = WakeUp 1) (newCalls ?g g')) = 1"
    by blast
  then show ?thesis by simp
qed

subsection \<open>C3: the scan takes the first intersecting object in registry order\<close>

text \<open>
  C3. On a press edge while idle, with a grip, the frame returns normally and the held
  object afterwards is the first entry of \<open>grabbableObjects\<close>, in index order, that the
  grip intersects: an entry at some index \<open>i\<close> that intersects, no entry before \<open>i\<close>
  intersecting. That object is attached: its parent is the grip, its impostor (when it has
  one) is asleep, every other mesh is as before, and the side effects of the frame are
  \<open>sleep\<close> (when it has an impostor) then \<open>setParent(grip)\<close> on that object and nothing
  else. When no entry intersects, the hand stays idle and the state is unchanged but for
  log lines: no mesh, impostor or binding is touched. With the registry \<open>[1, 2]\<close> and
  both objects intersecting, object \<open>1\<close> is attached and object \<open>2\<close> is untouched.
\<close>

theorem press_edge_selects_first_in_registry_order:
  assumes "rightController g = Some rc" and "grip rc = Some gr"
    and "getComponent (rightController g) ''xr-standard-squeeze'' = Some c"
    and "changes_pressed c" and "pressed c"
    and "rightGrabbedObject g = None"
  shows "\<exists>g'. processControllerInput isect g = Inr g'
           \<and> rightGrabbedObject g' = find (isect gr) (grabbableObjects g)
           \<and> (case rightGrabbedObject g' of
                 Some obj \<Rightarrow>
                   (\<exists>i<length (grabbableObjects g). grabbableObjects g ! i = obj \<and> isect gr obj
                      \<and> (\<forall>j<i. \<not> isect gr (grabbableObjects g ! j)))
                   \<and> parent (meshes g' obj) = Some gr
                   \<and> physicsImpostor (meshes g' obj)
                       = map_option (\<lambda>im. im\<lparr>asleep := True\<rparr>) (physicsImpostor (meshes g obj))
                   \<and> (\<forall>m. m \<noteq> obj \<longrightarrow> meshes g' m = meshes g m)
                   \<and> calls g' = calls g @ newCalls g g'
                   \<and> sideEffects g g'
                       = (case physicsImpostor (meshes g obj) of None \<Rightarrow> [] | Some im \<Rightarrow> [Sleep obj])
                         @ [SetParent obj (Some gr)]
               | None \<Rightarrow>
                   (\<forall>m\<in>set (grabbableObjects g). \<not> isect gr m)
                   \<and> (\<exists>ls. g' = g\<lparr>calls := calls g @ map Log ls\<rparr>)
                   \<and> sideEffects g g' = [])"
proof (cases "find (isect gr) (grabbableObjects g)")
  case None
  with frame_press_idle [OF assms(3-6) assms(1,2), of isect]
  obtain ks ls where g': "processControllerInput isect g = Inr (logged (ks @ ls) g)"
    by (auto simp add: logged_logged)
  let ?g' = "logged (ks @ ls) g"
  have "\<exists>ms. ?g' = g\<lparr>calls := calls g @ map Log ms\<rparr>"
    unfolding logged_def by blast
  moreover have "rightGrabbedObject ?g' = None" using assms(6) by simp
  moreover have "\<forall>m\<in>set (grabbableObjects g). \<not> isect gr m"
    using None by (simp add: find_None_iff)
  moreover have "sideEffects g ?g' = []" by simp
  ultimately show ?thesis using g' None by simp
next
  case (Some obj)
  with frame_press_idle [OF assms(3-6) assms(1,2), of isect]
  obtain ks ls where g': "processControllerInput isect g = Inr (logged ls (attach gr obj (logged ks g)))"
    by auto
  let ?g' = "logged ls (attach gr obj (logged ks g))"
  have "rightGrabbedObject ?g' = Some obj" by simp
  moreover have "parent (meshes ?g' obj) = Some gr" by simp
  moreover have "physicsImpostor (meshes ?g' obj)
      = map_option (\<lambda>im. im\<lparr>asleep := True\<rparr>) (physicsImpostor (meshes g obj))"
    by simp
  moreover have "\<forall>m. m \<noteq> obj \<longrightarrow> meshes ?g' m = meshes g m" by simp
  moreover have "calls ?g' = calls g @ newCalls g ?g'" by (simp add: newCalls_def)
  moreover have "sideEffects g ?g'
      = (case physicsImpostor (meshes g obj) of None \<Rightarrow> [] | Some im \<Rightarrow> [Sleep obj])
        @ [SetParent obj (Some gr)]"
    by (simp add: sideEffects_def newCalls_def split: option.splits)
  ultimately show ?thesis using find_first_index [OF Some] g' Some by simp
qed

theorem press_edge_selects_first_in_registry_order_witness:
  "\<exists>g'. processControllerInput (\<lambda>gr m. True) (idleState (squeeze True True)) = Inr g'
      \<and> grabbableObjects (idleState (squeeze True True)) = [1, 2]
      \<and> rightGrabbedObject g' = Some 1
      \<and> parent (meshes g' 1) = Some rightGrip
      \<and> physicsImpostor (meshes g' 1) = Some \<lparr>mass = 1, asleep = True\<rparr>
      \<and> meshes g' 2 = sleepingProp
      \<and> sideEffects (idleState (squeeze True True)) g' = [Sleep 1, SetParent 1 (Some rightGrip)]"
proof -
  let ?g = "idleState (squeeze True True)"
  let ?rc = "hand ''controller-right'' (Some rightGrip) (squeeze True True)"
  have h1: "rightController ?g = Some ?rc" by (simp add: idleState_def)
  have h2: "grip ?rc = Some rightGrip" by (simp add: hand_def)
  have h3: "getComponent (rightController ?g) ''xr-standard-squeeze'' = Some (squeeze True True)"
    by (simp add: idleState_def getComponent_def hand_def)
  have h4: "changes_pressed (squeeze True True)" by (simp add: squeeze_def)
  have h5: "pressed (squeeze True True)" by (simp add: squeeze_def)
  have h6: "rightGrabbedObject ?g = None" by (simp add: idleState_def)
  have reg: "grabbableObjects ?g = [1, 2]" by (simp add: idleState_def)
  have f: "find ((\<lambda>gr m. True) rightGrip) (grabbableObjects ?g) = Some 1" by (simp add: reg)
  have m1: "physicsImpostor (meshes ?g 1) = Some \<lparr>mass = 1, asleep = True\<rparr>"
    by (simp add: idleState_def sleepingProp_def)
  have m2: "meshes ?g 2 = sleepingProp" by (simp add: idleState_def)
  from press_edge_selects_first_in_registry_order [OF h1 h2 h3 h4 h5 h6, of "\<lambda>gr m. True"]
  obtain g' where r: "processControllerInput (\<lambda>gr m. True) ?g = Inr g'"
    "rightGrabbedObject g' = find ((\<lambda>gr m. True) rightGrip) (grabbableObjects ?g)"
    and c: "case rightGrabbedObject g' of
                 Some obj \<Rightarrow>
                   (\<exists>i<length (grabbableObjects ?g). grabbableObjects ?g ! i = obj
                      \<and> (\<lambda>gr m. True) rightGrip obj
                      \<and> (\<forall>j<i. \<not> (\<lambda>gr m. True) rightGrip (grabbableObjects ?g ! j)))
                   \<and> parent (meshes g' obj) = Some rightGrip
                   \<and> physicsImpostor (meshes g' obj)
                       = map_option (\<lambda>im. im\<lparr>asleep := True\<rparr>) (physicsImpostor (meshes ?g obj))
                   \<and> (\<forall>m. m \<noteq> obj \<longrightarrow> meshes g' m = meshes ?g m)
                   \<and> calls g' = calls ?g @ newCalls ?g g'
                   \<and> sideEffects ?g g'
                       = (case physicsImpostor (meshes ?g obj) of None \<Rightarrow> [] | Some im \<Rightarrow> [Sleep obj])
                         @ [SetParent obj (Some rightGrip)]
               | None \<Rightarrow>
                   (\<forall>m\<in>set (grabbableObjects ?g). \<not> (\<lambda>gr m. True) rightGrip m)
                   \<and> (\<exists>ls. g' = ?g\<lparr>calls := calls ?g @ map Log ls\<rparr>)
                   \<and> sideEffects ?g g' = []"
    by blast
  from r(2) f have held: "rightGrabbedObject g' = Some 1" by simp
  from c held m1 have "parent (meshes g' 1) = Some rightGrip"
    and "physicsImpostor (meshes g' 1) = Some \<lparr>mass = 1, asleep = True\<rparr>"
    and "meshes g' 2 = meshes ?g 2"
    and "sideEffects ?g g' = [Sleep 1, SetParent 1 (Some rightGrip)]"
    by simp_all
  with r(1) reg held m2 show ?thesis by simp
qed

subsection \<open>C4: holding on the grip, from the grab to the release\<close>

text \<open>
  C4 says that in every reachable state a held object has its physics suspended and is
  parented to the holding hand. Two runs of the program end in states where this fails.
  In the first, prop \<open>3\<close> is grabbed while the released prop \<open>2\<close> is still moving, and
  the physics step of \<open>scene.render()\<close> wakes it: it is held and awake. In the second,
  an input source takes the place of the right controller while prop \<open>2\<close> is held: the
  prop stays parented to the grip it was grabbed with, which is no longer the grip of the
  right controller.
\<close>

theorem held_object_awake_or_off_the_grip_counterexample:
  "reachable True heldAwakeExample
   \<and> rightGrabbedObject heldAwakeExample = Some 3
   \<and> physicsImpostor (meshes heldAwakeExample 3) = Some \<lparr>mass = 1, asleep = False\<rparr>
   \<and> \<not> heldOnGrip heldAwakeExample 3
   \<and> reachable True replacedExample
   \<and> rightGrabbedObject replacedExample = Some 2
   \<and> parent (meshes replacedExample 2) = Some rightGrip
   \<and> map_option grip (rightController replacedExample) = Some (Some otherGrip)
   \<and> \<not> heldOnGrip replacedExample 2"
proof -
  have a: "rightGrabbedObject heldAwakeExample = Some 3"
    "physicsImpostor (meshes heldAwakeExample 3) = Some \<lparr>mass = 1, asleep = False\<rparr>"
    by (simp_all add: example_defs Logger_Log_def)
  then have a': "\<not> heldOnGrip heldAwakeExample 3" by (simp add: heldOnGrip_def)
  have b: "rightGrabbedObject replacedExample = Some 2"
    "parent (meshes replacedExample 2) = Some rightGrip"
    "map_option grip (rightController replacedExample) = Some (Some otherGrip)"
    by (simp_all add: example_defs Logger_Log_def)
  have "otherGrip \<noteq> rightGrip" by (simp add: otherGrip_def rightGrip_def)
  then have b': "\<not> heldOnGrip replacedExample 2"
    using b(2,3) by (auto simp add: heldOnGrip_iff)
  show ?thesis
    using reachable_heldAwakeExample reachable_replacedExample a a' b b' by simp
qed

text \<open>
  C4, amended. In a reachable state, a frame that takes the right hand from idle to
  holding \<open>obj\<close> ends with \<open>obj\<close> held on the grip: its parent is the grip of the right
  controller and its impostor is asleep. The program's own steps keep an object held on
  the grip for as long as it stays held: a frame, a refresh of the input, the arrival of a
  left controller. Before the release, no step changes which object is held or its parent:
  a frame in which it stays held, a refresh of the input and the arrival of a controller
  touch no mesh, and the physics step keeps the parents; only the physics step can wake
  the impostor. From a reachable state holding \<open>obj\<close>, a frame with a release edge of the
  squeeze returns normally in a reachable state where nothing is held, \<open>obj\<close> has no
  parent and its impostor is awake.
\<close>

theorem grab_holds_on_grip_until_release:
  assumes "reachable b g"
  shows "(rightGrabbedObject g = None \<and> processControllerInput isect g = Inr g'
            \<and> rightGrabbedObject g' = Some obj
          \<longrightarrow> heldOnGrip g' obj)
       \<and> (heldOnGrip g obj \<and> processControllerInput isect g = Inr g'
            \<and> rightGrabbedObject g' = Some obj
          \<longrightarrow> heldOnGrip g' obj)
       \<and> (heldOnGrip g obj \<longrightarrow> heldOnGrip (pollInput mcL mcR g) obj)
       \<and> (heldOnGrip g obj \<and> endsWith (uniqueId inputSource) ''left''
          \<longrightarrow> heldOnGrip (onControllerAdded inputSource g) obj)
       \<and> (rightGrabbedObject g = Some obj \<and> processControllerInput isect g = Inr g'
            \<and> rightGrabbedObject g' = Some obj
          \<longrightarrow> meshes g' = meshes g)
       \<and> rightGrabbedObject (pollInput mcL mcR g) = rightGrabbedObject g
       \<and> meshes (pollInput mcL mcR g) = meshes g
       \<and> rightGrabbedObject (onControllerAdded inputSource g) = rightGrabbedObject g
       \<and> meshes (onControllerAdded inputSource g) = meshes g
       \<and> rightGrabbedObject (render woken g) = rightGrabbedObject g
       \<and> parent (meshes (render woken g) obj) = parent (meshes g obj)
       \<and> (rightGrabbedObject g = Some obj
            \<and> getComponent (rightController g) ''xr-standard-squeeze'' = Some c
            \<and> changes_pressed c \<and> \<not> pressed c
          \<longrightarrow> (\<exists>g'' im'. processControllerInput isect g = Inr g''
                 \<and> reachable b g''
                 \<and> rightGrabbedObject g'' = None
                 \<and> parent (meshes g'' obj) = None
                 \<and> physicsImpostor (meshes g'' obj) = Some im' \<and> \<not> asleep im'))"
proof -
  have inv: "grabInvariant b g" by (rule reachable_grabInvariant [OF assms])
  have 1: "rightGrabbedObject g = None \<and> processControllerInput isect g = Inr g'
            \<and> rightGrabbedObject g' = Some obj
          \<longrightarrow> heldOnGrip g' obj"
    using grab_establishes [OF inv] by blast
  have 2: "heldOnGrip g obj \<and> processControllerInput isect g = Inr g'
            \<and> rightGrabbedObject g' = Some obj
          \<longrightarrow> heldOnGrip g' obj"
    using frame_keeps_held by blast
  have 3: "heldOnGrip g obj \<longrightarrow> heldOnGrip (pollInput mcL mcR g) obj"
    by (auto simp add: heldOnGrip_iff pollInput_def)
  have 4: "heldOnGrip g obj \<and> endsWith (uniqueId inputSource) ''left''
          \<longrightarrow> heldOnGrip (onControllerAdded inputSource g) obj"
    by (auto simp add: heldOnGrip_iff onControllerAdded_def)
  have 5: "rightGrabbedObject (onControllerAdded inputSource g) = rightGrabbedObject g"
    "meshes (onControllerAdded inputSource g) = meshes g"
    "rightGrabbedObject (pollInput mcL mcR g) = rightGrabbedObject g"
    "meshes (pollInput mcL mcR g) = meshes g"
    by (simp_all add: onControllerAdded_def pollInput_def)
  have 8: "rightGrabbedObject g = Some obj \<and> processControllerInput isect g = Inr g'
            \<and> rightGrabbedObject g' = Some obj
          \<longrightarrow> meshes g' = meshes g"
    using frame_keeps_meshes_while_held by blast
  have 6: "rightGrabbedObject (render woken g) = rightGrabbedObject g"
    "parent (meshes (render woken g) obj) = parent (meshes g obj)"
    by (simp_all add: render_def)
  have 7: "\<exists>g'' im'. processControllerInput isect g = Inr g''
                 \<and> reachable b g''
                 \<and> rightGrabbedObject g'' = None
                 \<and> parent (meshes g'' obj) = None
                 \<and> physicsImpostor (meshes g'' obj) = Some im' \<and> \<not> asleep im'"
    if hold: "rightGrabbedObject g = Some obj"
      and c: "getComponent (rightController g) ''xr-standard-squeeze'' = Some c"
        "changes_pressed c" "\<not> pressed c"
  proof -
    from inv hold obtain im where im: "physicsImpostor (meshes g obj) = Some im"
      unfolding grabInvariant_def by blast
    from frame_release [OF c, of isect]
    obtain ks ls where g'': "processControllerInput isect g = Inr (logged ls (release (logged ks g)))"
      by auto
    let ?g' = "logged ls (release (logged ks g))"
    have h: "rightGrabbedObject (logged ks g) = Some obj" using hold by simp
    have "reachable b ?g'" by (rule reachable.frame [OF assms g''])
    moreover have "rightGrabbedObject ?g' = None" by simp
    moreover have "parent (meshes ?g' obj) = None" by (simp add: release_holding [OF h])
    moreover have "physicsImpostor (meshes ?g' obj) = Some (im\<lparr>asleep := False\<rparr>)"
      using im by (simp add: release_holding [OF h])
    ultimately show ?thesis using g'' by auto
  qed
  show ?thesis using 1 2 3 4 5 6 7 8 by blast
qed

theorem grab_holds_on_grip_until_release_witness:
  "heldOnGrip grabbedUpdate 2
   \<and> heldOnGrip (pollInput None (squeezeInput (squeeze False True)) grabbedUpdate) 2
   \<and> (\<exists>g'' im'. processControllerInput (\<lambda>gr m. True) releasingExample = Inr g''
         \<and> reachable True g''
         \<and> rightGrabbedObject g'' = None
         \<and> parent (meshes g'' 2) = None
         \<and> physicsImpostor (meshes g'' 2) = Some im' \<and> \<not> asleep im')"
proof -
  have i: "rightGrabbedObject pressedExample = None" by (simp add: example_defs)
  have h: "rightGrabbedObject grabbedUpdate = Some 2" by (simp add: grabbedUpdate_def)
  from grab_holds_on_grip_until_release [OF reachable_pressedExample,
      of "\<lambda>gr m. True" grabbedUpdate 2] i pressedExample_frame h
  have w1: "heldOnGrip grabbedUpdate 2" by blast
  from grab_holds_on_grip_until_release [OF reachable_grabbedUpdate,
      of _ _ 2 None "squeezeInput (squeeze False True)"] w1
  have w2: "heldOnGrip (pollInput None (squeezeInput (squeeze False True)) grabbedUpdate) 2"
    by blast
  have r: "rightGrabbedObject releasingExample = Some 2
      \<and> getComponent (rightController releasingExample) ''xr-standard-squeeze''
          = Some (squeeze False True)
      \<and> changes_pressed (squeeze False True) \<and> \<not> pressed (squeeze False True)"
    by (simp add: getComponent_def example_defs Logger_Log_def)
  from grab_holds_on_grip_until_release [OF reachable_releasingExample,
      of "\<lambda>gr m. True" _ 2 _ _ _ _ "squeeze False True"] r
  have w3: "\<exists>g'' im'. processControllerInput (\<lambda>gr m. True) releasingExample = Inr g''
         \<and> reachable True g''
         \<and> rightGrabbedObject g'' = None
         \<and> parent (meshes g'' 2) = None
         \<and> physicsImpostor (meshes g'' 2) = Some im' \<and> \<not> asleep im'"
    by blast
  show ?thesis using w1 w2 w3 by blast
qed

subsection \<open>C5: while holding, a press changes nothing; without an edge nothing fires\<close>

text \<open>
  C5. If the hand holds \<open>obj\<close> and the squeeze is pressed (a further press edge or a
  held press), or if the squeeze has no edge in this frame (held press or held release, in
  any state), then the frame returns normally and changes nothing but the log: the held
  object is the same, no mesh or impostor is touched, and the frame has no side effect
  (no \<open>sleep\<close>, no \<open>setParent\<close>).
\<close>

theorem held_press_or_level_changes_nothing:
  assumes "getComponent (rightController g) ''xr-standard-squeeze'' = Some c"
    and "(pressed c \<and> rightGrabbedObject g = Some obj) \<or> \<not> changes_pressed c"
  shows "\<exists>g'. processControllerInput isect g = Inr g'
           \<and> (\<exists>ls. g' = g\<lparr>calls := calls g @ map Log ls\<rparr>)
           \<and> rightGrabbedObject g' = rightGrabbedObject g
           \<and> meshes g' = meshes g
           \<and> sideEffects g g' = []"
proof -
  from assms frame_noop [of g isect]
  obtain ls where "processControllerInput isect g = Inr (logged ls g)" by auto
  then show ?thesis using logged_unfold [of ls g] by simp
qed

theorem held_press_or_level_changes_nothing_witness:
  "\<exists>ls. processControllerInput (\<lambda>gr m. True) (holdingState (squeeze True True))
           = Inr ((holdingState (squeeze True True))\<lparr>calls := map Log ls\<rparr>)"
proof -
  let ?g = "holdingState (squeeze True True)"
  have h1: "getComponent (rightController ?g) ''xr-standard-squeeze'' = Some (squeeze True True)"
    by (simp add: holdingState_def getComponent_def hand_def)
  have h2: "(pressed (squeeze True True) \<and> rightGrabbedObject ?g = Some 1)
      \<or> \<not> changes_pressed (squeeze True True)"
    by (simp add: holdingState_def squeeze_def)
  from held_press_or_level_changes_nothing [OF h1 h2, of "\<lambda>gr m. True"]
  obtain g' ls where "processControllerInput (\<lambda>gr m. True) ?g = Inr g'"
    "g' = ?g\<lparr>calls := calls ?g @ map Log ls\<rparr>" by blast
  moreover have "calls ?g = []" by (simp add: holdingState_def)
  ultimately show ?thesis by auto
qed

subsection \<open>C6: a release edge while idle does nothing\<close>

text \<open>
  C6. A release edge of the squeeze while nothing is held returns normally and leaves
  the state unchanged but for log lines: the hand stays idle, no mesh or impostor is
  touched, and the frame has no side effect (no \<open>setParent\<close>, no \<open>wakeUp\<close>).
\<close>

theorem release_edge_while_idle_is_noop:
  assumes "getComponent (rightController g) ''xr-standard-squeeze'' = Some c"
    and "changes_pressed c" and "\<not> pressed c" and "rightGrabbedObject g = None"
  shows "\<exists>g'. processControllerInput isect g = Inr g'
           \<and> (\<exists>ls. g' = g\<lparr>calls := calls g @ map Log ls\<rparr>)
           \<and> rightGrabbedObject g' = None
           \<and> meshes g' = meshes g
           \<and> sideEffects g g' = []"
proof -
  from assms frame_noop [of g isect]
  obtain ls where "processControllerInput isect g = Inr (logged ls g)" by auto
  then show ?thesis using logged_unfold [of ls g] assms(4) by simp
qed

theorem release_edge_while_idle_is_noop_witness:
  "\<exists>ls. processControllerInput (\<lambda>gr m. True) (idleState (squeeze False True))
           = Inr ((idleState (squeeze False True))\<lparr>calls := map Log ls\<rparr>)"
proof -
  let ?g = "idleState (squeeze False True)"
  have h1: "getComponent (rightController ?g) ''xr-standard-squeeze'' = Some (squeeze False True)"
    by (simp add: idleState_def getComponent_def hand_def)
  have h2: "changes_pressed (squeeze False True)" by (simp add: squeeze_def)
  have h3: "\<not> pressed (squeeze False True)" by (simp add: squeeze_def)
  have h4: "rightGrabbedObject ?g = None" by (simp add: idleState_def)
  from release_edge_while_idle_is_noop [OF h1 h2 h3 h4, of "\<lambda>gr m. True"]
  obtain g' ls where "processControllerInput (\<lambda>gr m. True) ?g = Inr g'"
    "g' = ?g\<lparr>calls := calls ?g @ map Log ls\<rparr>" by blast
  moreover have "calls ?g = []" by (simp add: idleState_def)
  ultimately show ?thesis by auto
qed

subsection \<open>C7: a press edge without a grip\<close>

text \<open>
  C7 says that without a grip a press edge is ignored and never throws. The code guards
  the missing controller (optional chaining on \<open>rightController\<close> and
  \<open>motionController\<close>) but only asserts the grip (\<open>this.rightController!.grip!\<close>). With
  a tracked right controller whose grip is undefined, an idle hand, a press edge of the
  squeeze and the registry \<open>[1, 2]\<close>, the first test of the scan dereferences the grip
  and the frame ends with a \<open>TypeError\<close>.
\<close>

theorem press_edge_without_grip_throws:
  "processControllerInput (\<lambda>gr m. True) (noGripState (squeeze True True)) = Inl TypeError"
proof -
  let ?g = "noGripState (squeeze True True)"
  have h1: "getComponent (rightController ?g) ''xr-standard-squeeze'' = Some (squeeze True True)"
    by (simp add: noGripState_def getComponent_def hand_def)
  have h2: "changes_pressed (squeeze True True)" "pressed (squeeze True True)"
    by (simp_all add: squeeze_def)
  have h3: "rightGrabbedObject ?g = None" "grabbableObjects ?g \<noteq> []"
    by (simp_all add: noGripState_def idleState_def)
  have h4: "rightController ?g = Some (hand ''controller-right'' None (squeeze True True))"
    by (simp add: noGripState_def)
  have h5: "grip (hand ''controller-right'' None (squeeze True True)) = None"
    by (simp add: hand_def)
  show ?thesis by (rule frame_press_no_grip [OF h1 h2 h3(1) h4 h5 h3(2)])
qed

subsection \<open>C8: the left hand\<close>

text \<open>
  C8 claims that the left squeeze runs the same scan and attach as the right one. The
  class has no field for an object held by the left hand, and \<open>onLeftSqueeze\<close> only
  logs. In the same scene, with the same press edge and the same overlap, the right hand
  attaches object \<open>1\<close> and the left hand does nothing but log.
\<close>

theorem left_squeeze_does_not_grab_counterexample:
  "processControllerInput (\<lambda>gr m. True) leftPressState
     = Inr (leftPressState\<lparr>calls := [Log ''left squeeze pressed'']\<rparr>)
   \<and> processControllerInput (\<lambda>gr m. True) (idleState (squeeze True True))
     = Inr ((idleState (squeeze True True))
         \<lparr>rightGrabbedObject := Some 1,
          meshes := (\<lambda>m. sleepingProp)(1 := sleepingProp\<lparr>parent := Some rightGrip\<rparr>),
          calls := [Log ''right squeeze pressed'', Sleep 1, SetParent 1 (Some rightGrip)]\<rparr>)"
proof
  show "processControllerInput (\<lambda>gr m. True) leftPressState
     = Inr (leftPressState\<lparr>calls := [Log ''left squeeze pressed'']\<rparr>)"
    by (simp add: handler_defs leftPressState_def hand_def squeeze_def Let_def)
next
  show "processControllerInput (\<lambda>gr m. True) (idleState (squeeze True True))
     = Inr ((idleState (squeeze True True))
         \<lparr>rightGrabbedObject := Some 1,
          meshes := (\<lambda>m. sleepingProp)(1 := sleepingProp\<lparr>parent := Some rightGrip\<rparr>),
          calls := [Log ''right squeeze pressed'', Sleep 1, SetParent 1 (Some rightGrip)]\<rparr>)"
    by (simp add: handler_defs idleState_def hand_def squeeze_def grabLoop.simps attach_def
        setParent_def sleep_def sleepingProp_def Let_def)
qed

text \<open>
  C8, amended. Only the right hand implements the grab and release state machine. The
  left squeeze handler, for every component and every state, appends at most one log line
  (\<open>left squeeze pressed\<close> on a press edge, \<open>left squeeze released\<close> on a release edge) and
  changes nothing else: no scan, no binding, no mesh, no impostor.
\<close>

theorem left_squeeze_only_logs:
  "onLeftSqueeze component g =
     g\<lparr>calls := calls g @ map Log
        (case component of
           None \<Rightarrow> []
         | Some c \<Rightarrow>
             if changes_pressed c
             then [if pressed c then ''left squeeze pressed'' else ''left squeeze released'']
             else [])\<rparr>"
  by (simp add: onLeftSqueeze_def Logger_Log_def split: option.splits)

subsection \<open>C9: registered objects sleep after loading\<close>

text \<open>
  C9 says that a registered object, asleep since scene loading, stays out of the
  simulation until it has been grabbed and released. In the run above prop \<open>3\<close> is
  registered, has never been attached to a grip, and is awake: the physics step woke it
  when the released prop \<open>2\<close> hit it.
\<close>

theorem never_grabbed_prop_awake_counterexample:
  "reachable True wokenExample
   \<and> grabbableObjects wokenExample = [2, 3]
   \<and> filter (isGrabOf 3) (calls wokenExample) = []
   \<and> filter (\<lambda>c. c = WakeUp 3) (calls wokenExample) = []
   \<and> physicsImpostor (meshes wokenExample 3) = Some \<lparr>mass = 1, asleep = False\<rparr>"
proof -
  have "grabbableObjects wokenExample = [2, 3]"
    "filter (isGrabOf 3) (calls wokenExample) = []"
    "filter (\<lambda>c. c = WakeUp 3) (calls wokenExample) = []"
    "physicsImpostor (meshes wokenExample 3) = Some \<lparr>mass = 1, asleep = False\<rparr>"
    by (simp_all add: example_defs Logger_Log_def)
  then show ?thesis using reachable_wokenExample by simp
qed

text \<open>
  C9, amended. When the assets finish loading, every mesh in the registry has an
  impostor that is asleep. The program itself wakes a registered object in one place
  only: a frame wakes an impostor only by releasing the object the hand holds, which was
  attached to a grip before; adding a controller and refreshing the input touch no mesh.
  Whether an object stays asleep until then is up to the physics step of the engine.
\<close>

theorem registered_objects_asleep_after_load_and_woken_by_release_only:
  "(reachable False g0 \<and> onSuccess loadedMeshes g0 = Inr g1 \<longrightarrow>
      (\<forall>m\<in>set (grabbableObjects (onFinish loadedMeshes g1)).
         \<exists>im. physicsImpostor (meshes (onFinish loadedMeshes g1) m) = Some im \<and> asleep im))
   \<and> (reachable b g \<and> processControllerInput isect g = Inr g'
        \<and> physicsImpostor (meshes g m) = Some im \<and> asleep im
        \<and> physicsImpostor (meshes g' m) = Some im' \<and> \<not> asleep im' \<longrightarrow>
      rightGrabbedObject g = Some m \<and> rightGrabbedObject g' = None
      \<and> filter (isGrabOf m) (calls g) \<noteq> [])
   \<and> meshes (pollInput mcL mcR g) = meshes g
   \<and> meshes (onControllerAdded inputSource g) = meshes g"
proof (intro conjI impI)
  assume a: "reachable False g0 \<and> onSuccess loadedMeshes g0 = Inr g1"
  then have "grabInvariant False g0" using reachable_grabInvariant by blast
  from loaded_sleeping [OF this, of loadedMeshes g1] a
  show "\<forall>m\<in>set (grabbableObjects (onFinish loadedMeshes g1)).
         \<exists>im. physicsImpostor (meshes (onFinish loadedMeshes g1) m) = Some im \<and> asleep im"
    by blast
next
  assume a: "reachable b g \<and> processControllerInput isect g = Inr g'
        \<and> physicsImpostor (meshes g m) = Some im \<and> asleep im
        \<and> physicsImpostor (meshes g' m) = Some im' \<and> \<not> asleep im'"
  then have r: "rightGrabbedObject g = Some m \<and> rightGrabbedObject g' = None"
    using frame_wakes_only_released [of isect g g' m im im'] by blast
  from a have "grabInvariant b g" using reachable_grabInvariant by blast
  with r have "\<exists>c\<in>set (calls g). isGrabOf m c" unfolding grabInvariant_def by blast
  then have "filter (isGrabOf m) (calls g) \<noteq> []" by (simp add: filter_empty_conv)
  with r show "rightGrabbedObject g = Some m" "rightGrabbedObject g' = None"
    "filter (isGrabOf m) (calls g) \<noteq> []"
    by simp_all
next
  show "meshes (pollInput mcL mcR g) = meshes g" by (simp add: pollInput_def)
next
  show "meshes (onControllerAdded inputSource g) = meshes g" by (simp add: onControllerAdded_def)
qed

theorem registered_objects_asleep_after_load_and_woken_by_release_only_witness:
  "grabbableObjects loadedExample = [2, 3]
   \<and> (\<exists>im. physicsImpostor (meshes loadedExample 2) = Some im \<and> asleep im)
   \<and> (\<exists>im. physicsImpostor (meshes loadedExample 3) = Some im \<and> asleep im)
   \<and> processControllerInput (\<lambda>gr m. True) releasingExample = Inr releasedUpdate
   \<and> physicsImpostor (meshes releasingExample 2) = Some \<lparr>mass = 1, asleep = True\<rparr>
   \<and> physicsImpostor (meshes releasedUpdate 2) = Some \<lparr>mass = 1, asleep = False\<rparr>
   \<and> rightGrabbedObject releasingExample = Some 2
   \<and> rightGrabbedObject releasedUpdate = None
   \<and> filter (isGrabOf 2) (calls releasingExample) \<noteq> []"
proof -
  have reg: "grabbableObjects loadedExample = [2, 3]" by (rule loadedExample_registry)
  from registered_objects_asleep_after_load_and_woken_by_release_only
    [of connectedExample "[0, 1, 2, 3]" renamedExample]
    reachable_connectedExample connectedExample_renamed
  have a: "\<forall>m\<in>set (grabbableObjects loadedExample).
         \<exists>im. physicsImpostor (meshes loadedExample m) = Some im \<and> asleep im"
    unfolding loadedExample_def by blast
  have s: "physicsImpostor (meshes releasingExample 2) = Some \<lparr>mass = 1, asleep = True\<rparr>"
    "physicsImpostor (meshes releasedUpdate 2) = Some \<lparr>mass = 1, asleep = False\<rparr>"
    by (simp_all add: example_defs Logger_Log_def)
  from registered_objects_asleep_after_load_and_woken_by_release_only
    [of _ _ _ True releasingExample "\<lambda>gr m. True" releasedUpdate 2
      "\<lparr>mass = 1, asleep = True\<rparr>" "\<lparr>mass = 1, asleep = False\<rparr>"]
    reachable_releasingExample releasingExample_frame s
  have b: "rightGrabbedObject releasingExample = Some 2 \<and> rightGrabbedObject releasedUpdate = None
      \<and> filter (isGrabOf 2) (calls releasingExample) \<noteq> []"
    by simp
  show ?thesis using reg a s b releasingExample_frame by simp
qed

subsection \<open>C10: objects without an impostor\<close>

text \<open>
  C10. Let \<open>obj\<close> have no impostor and the squeeze have an edge. If it is a press
  edge, the hand is idle and \<open>obj\<close> is the first registry entry the grip intersects, the
  frame returns normally holding \<open>obj\<close>, parented to the grip, and its only side effect is
  \<open>setParent\<close> (no \<open>sleep\<close>). If it is a release edge and the hand holds \<open>obj\<close>, the
  frame returns normally, idle, \<open>obj\<close> without parent, and its only side effect is
  \<open>setParent(null)\<close> (no \<open>wakeUp\<close>).
\<close>

theorem missing_impostor_skips_only_the_physics_call:
  assumes "getComponent (rightController g) ''xr-standard-squeeze'' = Some c"
    and "changes_pressed c"
    and "physicsImpostor (meshes g obj) = None"
  shows "(pressed c \<and> rightGrabbedObject g = None \<and> rightController g = Some rc \<and> grip rc = Some gr
            \<and> find (isect gr) (grabbableObjects g) = Some obj
          \<longrightarrow> (\<exists>g'. processControllerInput isect g = Inr g'
                 \<and> rightGrabbedObject g' = Some obj
                 \<and> parent (meshes g' obj) = Some gr
                 \<and> physicsImpostor (meshes g' obj) = None
                 \<and> sideEffects g g' = [SetParent obj (Some gr)]))
       \<and> (\<not> pressed c \<and> rightGrabbedObject g = Some obj
          \<longrightarrow> (\<exists>g'. processControllerInput isect g = Inr g'
                 \<and> rightGrabbedObject g' = None
                 \<and> parent (meshes g' obj) = None
                 \<and> physicsImpostor (meshes g' obj) = None
                 \<and> sideEffects g g' = [SetParent obj None]))"
proof (intro conjI impI)
  assume a: "pressed c \<and> rightGrabbedObject g = None \<and> rightController g = Some rc \<and> grip rc = Some gr
            \<and> find (isect gr) (grabbableObjects g) = Some obj"
  then have p: "pressed c" and i: "rightGrabbedObject g = None" and rc: "rightController g = Some rc"
    and gr: "grip rc = Some gr" and f: "find (isect gr) (grabbableObjects g) = Some obj"
    by simp_all
  from frame_press_idle [OF assms(1,2) p i rc gr, of isect] f
  obtain ks ls where g': "processControllerInput isect g = Inr (logged ls (attach gr obj (logged ks g)))"
    by auto
  let ?g' = "logged ls (attach gr obj (logged ks g))"
  have "rightGrabbedObject ?g' = Some obj" by simp
  moreover have "parent (meshes ?g' obj) = Some gr" by simp
  moreover have "physicsImpostor (meshes ?g' obj) = None" using assms(3) by simp
  moreover have "sideEffects g ?g' = [SetParent obj (Some gr)]"
    using assms(3) by (simp add: sideEffects_def newCalls_def)
  ultimately show "\<exists>g'. processControllerInput isect g = Inr g'
                 \<and> rightGrabbedObject g' = Some obj
                 \<and> parent (meshes g' obj) = Some gr
                 \<and> physicsImpostor (meshes g' obj) = None
                 \<and> sideEffects g g' = [SetParent obj (Some gr)]"
    using g' by auto
next
  assume a: "\<not> pressed c \<and> rightGrabbedObject g = Some obj"
  then have p: "\<not> pressed c" and hold: "rightGrabbedObject g = Some obj" by simp_all
  from frame_release [OF assms(1,2) p, of isect]
  obtain ks ls where g': "processControllerInput isect g = Inr (logged ls (release (logged ks g)))"
    by auto
  let ?g' = "logged ls (release (logged ks g))"
  have h: "rightGrabbedObject (logged ks g) = Some obj" using hold by simp
  have "rightGrabbedObject ?g' = None" by simp
  moreover have "parent (meshes ?g' obj) = None" by (simp add: release_holding [OF h])
  moreover have "physicsImpostor (meshes ?g' obj) = None"
    using assms(3) by (simp add: release_holding [OF h])
  moreover have "sideEffects g ?g' = [SetParent obj None]"
    using assms(3) by (simp add: sideEffects_def newCalls_def release_holding [OF h])
  ultimately show "\<exists>g'. processControllerInput isect g = Inr g'
                 \<and> rightGrabbedObject g' = None
                 \<and> parent (meshes g' obj) = None
                 \<and> physicsImpostor (meshes g' obj) = None
                 \<and> sideEffects g g' = [SetParent obj None]"
    using g' by auto
qed

theorem missing_impostor_skips_only_the_physics_call_witness:
  "(\<exists>g'. processControllerInput (\<lambda>gr m. True) (bareIdleState (squeeze True True)) = Inr g'
        \<and> rightGrabbedObject g' = Some 1
        \<and> parent (meshes g' 1) = Some rightGrip
        \<and> physicsImpostor (meshes g' 1) = None
        \<and> sideEffects (bareIdleState (squeeze True True)) g' = [SetParent 1 (Some rightGrip)])
   \<and> (\<exists>g'. processControllerInput (\<lambda>gr m. True) (bareHoldingState (squeeze False True)) = Inr g'
        \<and> rightGrabbedObject g' = None
        \<and> parent (meshes g' 1) = None
        \<and> physicsImpostor (meshes g' 1) = None
        \<and> sideEffects (bareHoldingState (squeeze False True)) g' = [SetParent 1 None])"
proof
  let ?g = "bareIdleState (squeeze True True)"
  let ?rc = "hand ''controller-right'' (Some rightGrip) (squeeze True True)"
  have h1: "getComponent (rightController ?g) ''xr-standard-squeeze'' = Some (squeeze True True)"
    by (simp add: bareIdleState_def idleState_def getComponent_def hand_def)
  have h2: "changes_pressed (squeeze True True)" by (simp add: squeeze_def)
  have h3: "physicsImpostor (meshes ?g 1) = None"
    by (simp add: bareIdleState_def bareProp_def)
  have h4: "pressed (squeeze True True) \<and> rightGrabbedObject ?g = None
      \<and> rightController ?g = Some ?rc \<and> grip ?rc = Some rightGrip
      \<and> find ((\<lambda>gr m. True) rightGrip) (grabbableObjects ?g) = Some 1"
    by (simp add: bareIdleState_def idleState_def squeeze_def hand_def)
  from missing_impostor_skips_only_the_physics_call [OF h1 h2 h3, of ?rc rightGrip "\<lambda>gr m. True"] h4
  show "\<exists>g'. processControllerInput (\<lambda>gr m. True) ?g = Inr g'
        \<and> rightGrabbedObject g' = Some 1
        \<and> parent (meshes g' 1) = Some rightGrip
        \<and> physicsImpostor (meshes g' 1) = None
        \<and> sideEffects ?g g' = [SetParent 1 (Some rightGrip)]"
    by blast
next
  let ?g = "bareHoldingState (squeeze False True)"
  have h1: "getComponent (rightController ?g) ''xr-standard-squeeze'' = Some (squeeze False True)"
    by (simp add: bareHoldingState_def holdingState_def getComponent_def hand_def)
  have h2: "changes_pressed (squeeze False True)" by (simp add: squeeze_def)
  have h3: "physicsImpostor (meshes ?g 1) = None"
    by (simp add: bareHoldingState_def bareProp_def)
  have h4: "\<not> pressed (squeeze False True) \<and> rightGrabbedObject ?g = Some 1"
    by (simp add: bareHoldingState_def holdingState_def squeeze_def)
  from missing_impostor_skips_only_the_physics_call [OF h1 h2 h3, of _ _ "\<lambda>gr m. True"] h4
  show "\<exists>g'. processControllerInput (\<lambda>gr m. True) ?g = Inr g'
        \<and> rightGrabbedObject g' = None
        \<and> parent (meshes g' 1) = None
        \<and> physicsImpostor (meshes g' 1) = None
        \<and> sideEffects ?g g' = [SetParent 1 None]"
    by blast
qed

end
